theory Spec2Isabelle
  imports Main
begin

section \<open>QueryHandler.js: a shallow embedding\<close>

text \<open>
  The library (\<^verbatim>\<open>src/queryHandler.js\<close>) is five methods over facilities of the host
  environment: \<^verbatim>\<open>URLSearchParams\<close>, \<^verbatim>\<open>URL\<close>, plain objects, \<^verbatim>\<open>Object.entries\<close>,
  \<^verbatim>\<open>instanceof\<close> and the properties of two kinds of DOM element. The five methods are
  embedded statement by statement at the end of the definitions; the host facilities they
  call are embedded first, each from the standard that defines it (the WHATWG URL and
  Encoding standards, ECMAScript).

  Text. A JavaScript string is modelled as \<^typ>\<open>string\<close>, the list of the bytes of its
  UTF-8 encoding, so that an ASCII literal reads as itself. "UTF-8 encode" is then the
  identity and "UTF-8 decode" is \<open>utf8_decode\<close> below, which replaces ill-formed byte
  sequences as the Encoding standard's decoder does.
\<close>

subsection \<open>Bytes, percent-decoding and UTF-8 decoding\<close>

definition in_range :: "nat \<Rightarrow> nat \<Rightarrow> char \<Rightarrow> bool" where
  "in_range lo hi c \<longleftrightarrow> lo \<le> of_char c \<and> of_char c \<le> hi"

definition is_ascii_hex_digit :: "char \<Rightarrow> bool" where
  "is_ascii_hex_digit c \<longleftrightarrow> in_range 48 57 c \<or> in_range 65 70 c \<or> in_range 97 102 c"

definition hex_value :: "char \<Rightarrow> nat" where
  "hex_value c =
     (let n = (of_char c :: nat)
      in if n \<le> 57 then n - 48 else if n \<le> 70 then n - 55 else n - 87)"

text \<open>
  Percent-decode (URL standard, 1.3): a \<open>%\<close> followed by two hexadecimal digits is the
  byte they denote; any other byte, and a \<open>%\<close> not so followed, stands for itself.
\<close>

fun percent_decode :: "string \<Rightarrow> string" where
  "percent_decode [] = []"
| "percent_decode (c # cs) =
     (if c = CHR ''%'' then
        (case cs of
           h1 # h2 # rest \<Rightarrow>
             if is_ascii_hex_digit h1 \<and> is_ascii_hex_digit h2
             then char_of (16 * hex_value h1 + hex_value h2) # percent_decode rest
             else c # percent_decode cs
         | _ \<Rightarrow> c # percent_decode cs)
      else c # percent_decode cs)"

text \<open>The UTF-8 encoding of U+FFFD, the replacement character.\<close>

definition replacement :: string where
  "replacement = [char_of (0xEF :: nat), char_of (0xBF :: nat), char_of (0xBD :: nat)]"

text \<open>
  UTF-8 decode without BOM (Encoding standard, the UTF-8 decoder), on the byte representation:
  a well-formed sequence of one to four bytes is kept; where a lead byte is not followed by
  the continuation bytes it needs, one replacement character is emitted for the bytes read
  so far and decoding resumes at the offending byte; a byte that cannot start a sequence
  gives one replacement character. The bounds on the first continuation byte after
  \<open>E0\<close>, \<open>ED\<close>, \<open>F0\<close> and \<open>F4\<close> exclude overlong forms, surrogates and
  code points above U+10FFFF.
\<close>

fun utf8_decode :: "string \<Rightarrow> string" where
  "utf8_decode [] = []"
| "utf8_decode (b # bs) =
     (if in_range 0x00 0x7F b then b # utf8_decode bs
      else if in_range 0xC2 0xDF b then
        (case bs of
           [] \<Rightarrow> replacement
         | c # cs \<Rightarrow>
             if in_range 0x80 0xBF c then b # c # utf8_decode cs
             else replacement @ utf8_decode bs)
      else if in_range 0xE0 0xEF b then
        (case bs of
           [] \<Rightarrow> replacement
         | c # cs \<Rightarrow>
             if in_range (if of_char b = (0xE0 :: nat) then 0xA0 else 0x80)
                         (if of_char b = (0xED :: nat) then 0x9F else 0xBF) c
             then (case cs of
                     [] \<Rightarrow> replacement
                   | d # ds \<Rightarrow>
                       if in_range 0x80 0xBF d then b # c # d # utf8_decode ds
                       else replacement @ utf8_decode cs)
             else replacement @ utf8_decode bs)
      else if in_range 0xF0 0xF4 b then
        (case bs of
           [] \<Rightarrow> replacement
         | c # cs \<Rightarrow>
             if in_range (if of_char b = (0xF0 :: nat) then 0x90 else 0x80)
                         (if of_char b = (0xF4 :: nat) then 0x8F else 0xBF) c
             then (case cs of
                     [] \<Rightarrow> replacement
                   | d # ds \<Rightarrow>
                       if in_range 0x80 0xBF d
                       then (case ds of
                               [] \<Rightarrow> replacement
                             | e # es \<Rightarrow>
                                 if in_range 0x80 0xBF e then b # c # d # e # utf8_decode es
                                 else replacement @ utf8_decode ds)
                       else replacement @ utf8_decode cs)
             else replacement @ utf8_decode bs)
      else replacement @ utf8_decode bs)"

text \<open>
  A string of the model is text when decoding leaves it alone, that is when it is
  well-formed UTF-8. Every JavaScript string handed to the platform as a \<open>USVString\<close> is.
\<close>

definition is_text :: "string \<Rightarrow> bool" where
  "is_text s \<longleftrightarrow> utf8_decode s = s"

subsection \<open>The \<open>application/x-www-form-urlencoded\<close> format\<close>

text \<open>Strict splitting of a byte sequence on a delimiter.\<close>

fun split_on :: "char \<Rightarrow> string \<Rightarrow> string list" where
  "split_on d [] = [[]]"
| "split_on d (c # cs) =
     (if c = d then [] # split_on d cs
      else (case split_on d cs of x # xs \<Rightarrow> (c # x) # xs | [] \<Rightarrow> [[c]]))"

definition plus_to_space :: "string \<Rightarrow> string" where
  "plus_to_space = map (\<lambda>c. if c = CHR ''+'' then CHR '' '' else c)"

definition urlencoded_decode :: "string \<Rightarrow> string" where
  "urlencoded_decode s = utf8_decode (percent_decode (plus_to_space s))"

text \<open>
  The parser (URL standard, 5.1): split on \<open>&\<close>, skip empty sequences, split each at its
  first \<open>=\<close> (a sequence without one is a name with the empty value), replace \<open>+\<close> by a
  space, percent-decode, UTF-8 decode.
\<close>

definition parse_pair :: "string \<Rightarrow> string \<times> string" where
  "parse_pair bytes =
     (let name = takeWhile (\<lambda>c. c \<noteq> CHR ''='') bytes;
          val = drop (Suc (length name)) bytes
      in (urlencoded_decode name, urlencoded_decode val))"

definition urlencoded_parse :: "string \<Rightarrow> (string \<times> string) list" where
  "urlencoded_parse input =
     map parse_pair (filter (\<lambda>s. s \<noteq> []) (split_on CHR ''&'' input))"

definition is_ascii_alphanumeric :: "char \<Rightarrow> bool" where
  "is_ascii_alphanumeric c \<longleftrightarrow> in_range 48 57 c \<or> in_range 65 90 c \<or> in_range 97 122 c"

definition hex_digit :: "nat \<Rightarrow> char" where
  "hex_digit n = ''0123456789ABCDEF'' ! n"

definition percent_encode_byte :: "char \<Rightarrow> string" where
  "percent_encode_byte c =
     [CHR ''%'', hex_digit (of_char c div 16), hex_digit (of_char c mod 16)]"

text \<open>
  The serializer (URL standard, 5.2). Its percent-encode set is every byte but the ASCII
  alphanumerics and \<open>*\<close>, \<open>-\<close>, \<open>.\<close>, \<open>_\<close>; a space is written \<open>+\<close>.
\<close>

definition urlencoded_byte :: "char \<Rightarrow> string" where
  "urlencoded_byte c =
     (if c = CHR '' '' then ''+''
      else if is_ascii_alphanumeric c \<or> c \<in> set ''*-._'' then [c]
      else percent_encode_byte c)"

definition urlencoded_encode :: "string \<Rightarrow> string" where
  "urlencoded_encode s = concat (map urlencoded_byte s)"

fun urlencoded_serialize :: "(string \<times> string) list \<Rightarrow> string" where
  "urlencoded_serialize [] = []"
| "urlencoded_serialize [(name, val)] = urlencoded_encode name @ ''='' @ urlencoded_encode val"
| "urlencoded_serialize ((name, val) # t # ts) =
     urlencoded_encode name @ ''='' @ urlencoded_encode val @ ''&''
       @ urlencoded_serialize (t # ts)"

subsection \<open>\<open>URLSearchParams\<close>\<close>

text \<open>
  A \<open>URLSearchParams\<close> object is its list of name-value tuples. The constructor, given a
  string, drops one leading \<open>?\<close> and parses the rest; \<open>forEach\<close> visits the tuples in
  list order, which is the left-to-right order of the query string.
\<close>

definition URLSearchParams_new :: "string \<Rightarrow> (string \<times> string) list" where
  "URLSearchParams_new init =
     urlencoded_parse (case init of c # cs \<Rightarrow> if c = CHR ''?'' then cs else init | [] \<Rightarrow> init)"

text \<open>
  \<open>set(name, value)\<close> on the list (URL standard, 6.2): if the list has tuples with that
  name, the first of them gets the value and the others are removed; otherwise a new tuple
  is appended.
\<close>

fun list_set :: "(string \<times> string) list \<Rightarrow> string \<Rightarrow> string \<Rightarrow> (string \<times> string) list" where
  "list_set [] name val = [(name, val)]"
| "list_set ((n, v) # ts) name val =
     (if n = name then (name, val) # filter (\<lambda>t. fst t \<noteq> name) ts
      else (n, v) # list_set ts name val)"

subsection \<open>Plain objects\<close>

text \<open>
  The object literal \<^verbatim>\<open>{}\<close> with string-valued properties: its own properties in the
  order of their creation. An assignment \<^verbatim>\<open>obj[key] = value\<close> overwrites an existing own
  property in place and creates a new one at the end, with one exception: the key
  \<^verbatim>\<open>__proto__\<close> names an accessor inherited from \<^verbatim>\<open>Object.prototype\<close>, whose setter
  ignores a value that is neither an object nor null, so assigning a string to it creates
  no property (ECMAScript, OrdinarySet and the setter of \<^verbatim>\<open>Object.prototype.__proto__\<close>).
\<close>

type_synonym js_object = "(string \<times> string) list"

definition js_assign :: "js_object \<Rightarrow> string \<Rightarrow> string \<Rightarrow> js_object" where
  "js_assign obj key val =
     (if key = ''__proto__'' then obj
      else if key \<in> fst ` set obj
        then map (\<lambda>(k, v). if k = key then (k, val) else (k, v)) obj
      else obj @ [(key, val)])"

text \<open>
  An array index is the canonical decimal form of an integer from 0 to \<open>2\<^sup>3\<^sup>2 - 2\<close>.
  \<^verbatim>\<open>Object.entries\<close> enumerates own properties in the order of OrdinaryOwnPropertyKeys:
  the array indices in ascending numeric order, then the other string keys in the order of
  their creation.
\<close>

definition digits_value :: "string \<Rightarrow> nat" where
  "digits_value s = foldl (\<lambda>n c. 10 * n + (of_char c - 48)) 0 s"

definition is_array_index :: "string \<Rightarrow> bool" where
  "is_array_index s \<longleftrightarrow>
     s \<noteq> [] \<and> list_all (in_range 48 57) s \<and> (length s = 1 \<or> hd s \<noteq> CHR ''0'') \<and>
     digits_value s < 4294967295"

definition Object_entries :: "js_object \<Rightarrow> (string \<times> string) list" where
  "Object_entries obj =
     sort_key (\<lambda>p. digits_value (fst p)) (filter (\<lambda>p. is_array_index (fst p)) obj)
       @ filter (\<lambda>p. \<not> is_array_index (fst p)) obj"

subsection \<open>\<open>URL\<close>\<close>

text \<open>
  Percent-encoding with a percent-encode set (URL standard, 1.3), and the sets the URL parser
  applies to a query and to a fragment. The query set gains \<open>'\<close> when the scheme is special.
\<close>

definition percent_encode :: "(char \<Rightarrow> bool) \<Rightarrow> string \<Rightarrow> string" where
  "percent_encode in_set s =
     concat (map (\<lambda>c. if in_set c then percent_encode_byte c else [c]) s)"

definition c0_control_set :: "char \<Rightarrow> bool" where
  "c0_control_set c \<longleftrightarrow> in_range 0x00 0x1F c \<or> \<not> in_range 0x00 0x7E c"

definition fragment_set :: "char \<Rightarrow> bool" where
  "fragment_set c \<longleftrightarrow> c0_control_set c \<or> c \<in> set '' \"<>`''"

definition query_set :: "char \<Rightarrow> bool" where
  "query_set c \<longleftrightarrow> c0_control_set c \<or> c \<in> set '' \"#<>''"

definition special_query_set :: "char \<Rightarrow> bool" where
  "special_query_set c \<longleftrightarrow> query_set c \<or> c = CHR 0x27"

text \<open>
  A \<open>URL\<close> object: whether its scheme is special; \<open>prefix\<close>, the serialization of scheme,
  authority and path (all that \<open>href\<close> writes before the query); the query and the fragment,
  absent or present; and the list of its \<open>searchParams\<close> object.
\<close>

record URL =
  special :: bool
  prefix :: string
  query :: "string option"
  fragment :: "string option"
  searchParams :: "(string \<times> string) list"

text \<open>
  The URL parser's treatment of scheme, authority and path (hosts, ports, dot segments,
  IDNA) is the platform's and is a parameter of the model: a \<open>host_parser\<close> takes the input
  up to its first \<open>?\<close> or \<open>#\<close> and fails, or returns whether the scheme is special and the
  serialized prefix. Everything else the constructor does is modelled: it strips leading and
  trailing C0 controls and spaces, removes tabs and newlines, takes the fragment after the
  first \<open>#\<close> and the query after the first \<open>?\<close> before it, percent-encodes both, and
  initialises \<open>searchParams\<close> by parsing the query. A parse failure is a \<open>TypeError\<close>.
\<close>

type_synonym host_parser = "string \<Rightarrow> (bool \<times> string) option"

datatype js_error = TypeError | Error string

definition is_c0_or_space :: "char \<Rightarrow> bool" where
  "is_c0_or_space c \<longleftrightarrow> in_range 0x00 0x20 c"

definition is_tab_or_newline :: "char \<Rightarrow> bool" where
  "is_tab_or_newline c \<longleftrightarrow> c \<in> {CHR 0x09, CHR 0x0A, CHR 0x0D}"

definition strip_c0_or_space :: "string \<Rightarrow> string" where
  "strip_c0_or_space s = rev (dropWhile is_c0_or_space (rev (dropWhile is_c0_or_space s)))"

definition split_first :: "char \<Rightarrow> string \<Rightarrow> string \<times> string option" where
  "split_first d s =
     (takeWhile (\<lambda>c. c \<noteq> d) s,
      case dropWhile (\<lambda>c. c \<noteq> d) s of [] \<Rightarrow> None | _ # rest \<Rightarrow> Some rest)"

definition url_parts :: "string \<Rightarrow> string \<times> string option \<times> string option" where
  "url_parts input =
     (let s = filter (\<lambda>c. \<not> is_tab_or_newline c) (strip_c0_or_space input);
          (s1, frag) = split_first CHR ''#'' s;
          (pre, qry) = split_first CHR ''?'' s1
      in (pre, qry, frag))"

definition URL_new :: "host_parser \<Rightarrow> string \<Rightarrow> js_error + URL" where
  "URL_new H input =
     (case url_parts input of
        (pre, qry, frag) \<Rightarrow>
          (case H pre of
             None \<Rightarrow> Inl TypeError
           | Some (sp, p) \<Rightarrow>
               let q = map_option (percent_encode (if sp then special_query_set else query_set)) qry
               in Inr \<lparr>special = sp, prefix = p, query = q,
                        fragment = map_option (percent_encode fragment_set) frag,
                        searchParams = urlencoded_parse (case q of None \<Rightarrow> [] | Some t \<Rightarrow> t)\<rparr>))"

definition URL_href :: "URL \<Rightarrow> string" where
  "URL_href url =
     prefix url @ (case query url of None \<Rightarrow> [] | Some q \<Rightarrow> CHR ''?'' # q)
       @ (case fragment url of None \<Rightarrow> [] | Some f \<Rightarrow> CHR ''#'' # f)"

text \<open>
  \<^verbatim>\<open>url.searchParams.set(name, value)\<close>: the list is changed and then the update steps
  write its serialization to the URL's query, which becomes absent when that is empty.
\<close>

definition URLSearchParams_set :: "URL \<Rightarrow> string \<Rightarrow> string \<Rightarrow> URL" where
  "URLSearchParams_set url name val =
     (let l = list_set (searchParams url) name val;
          serializedQuery = urlencoded_serialize l
      in url\<lparr>searchParams := l,
              query := (if serializedQuery = [] then None else Some serializedQuery)\<rparr>)"

subsection \<open>The window, its objects and elements\<close>

text \<open>
  The part of the host state the library reads and writes: \<^verbatim>\<open>window.location.search\<close>,
  \<^verbatim>\<open>window.location.href\<close>, the realm of the window (each window has its own global
  constructors and their prototype objects) and the objects a caller may pass for an element.

  An object is described by what the library's guard and assignment consult: its prototype
  chain, nearest prototype first; the interface it implements when it is a platform element
  (its internal brand, independent of the prototype chain), and none for an ordinary object;
  its own writable data properties; and, for an element, the attributes that the reflecting
  setters write. So \<^verbatim>\<open>document.createElement("a")\<close> is an object implementing
  \<open>HTMLAnchorElement\<close> whose chain starts with this window's
  \<^verbatim>\<open>HTMLAnchorElement.prototype\<close>; an anchor created in another window implements the same
  interface with the other window's prototypes in its chain;
  \<^verbatim>\<open>Object.create(HTMLAnchorElement.prototype)\<close> has this window's prototype in its chain
  and implements nothing; \<^verbatim>\<open>{}\<close> has the chain of \<^verbatim>\<open>Object.prototype\<close> alone.

  Values that are not objects are \<open>undefined\<close>, \<open>null\<close> and strings; the other
  primitive values behave as strings do in everything modelled here. Objects are ordinary
  and extensible, their chains are made of the platform's prototypes, and the global
  constructors are the ones the platform installed.
\<close>

datatype dom_interface = HTMLIFrameElement | HTMLAnchorElement | HTMLElement

datatype prototype = ObjectPrototype | InterfacePrototype nat dom_interface

record heap_object =
  prototype_chain :: "prototype list"
  implements :: "dom_interface option"
  own_properties :: "string \<Rightarrow> string option"
  attributes :: "string \<Rightarrow> string option"

datatype js_value = JSUndefined | JSNull | JSString string | JSObject nat

record window =
  location_search :: string
  location_href :: string
  realm :: nat
  heap :: "nat \<Rightarrow> heap_object"

text \<open>
  \<^verbatim>\<open>v instanceof C\<close> for a global interface constructor \<open>C\<close> (ECMAScript,
  OrdinaryHasInstance): false for a value that is not an object; for an object, whether
  \<^verbatim>\<open>C.prototype\<close>, the prototype object of the current window's \<open>C\<close>, occurs in its
  prototype chain.
\<close>

definition instanceof :: "window \<Rightarrow> js_value \<Rightarrow> dom_interface \<Rightarrow> bool" where
  "instanceof w v i =
     (case v of
        JSObject r \<Rightarrow> InterfacePrototype (realm w) i \<in> set (prototype_chain (heap w r))
      | _ \<Rightarrow> False)"

text \<open>
  The reflecting accessors the library assigns through: \<open>src\<close> lives on every window's
  \<^verbatim>\<open>HTMLIFrameElement.prototype\<close> and \<open>href\<close> on every window's
  \<^verbatim>\<open>HTMLAnchorElement.prototype\<close>. The assignment finds the first one along the chain.
\<close>

fun accessor_on :: "prototype \<Rightarrow> string \<Rightarrow> dom_interface option" where
  "accessor_on (InterfacePrototype r HTMLIFrameElement) name =
     (if name = ''src'' then Some HTMLIFrameElement else None)"
| "accessor_on (InterfacePrototype r HTMLAnchorElement) name =
     (if name = ''href'' then Some HTMLAnchorElement else None)"
| "accessor_on (InterfacePrototype r HTMLElement) name = None"
| "accessor_on ObjectPrototype name = None"

fun find_accessor :: "prototype list \<Rightarrow> string \<Rightarrow> dom_interface option" where
  "find_accessor [] name = None"
| "find_accessor (p # ps) name =
     (case accessor_on p name of Some i \<Rightarrow> Some i | None \<Rightarrow> find_accessor ps name)"

text \<open>
  The assignment \<^verbatim>\<open>v[name] = val\<close> of a string (ECMAScript, OrdinarySet; Web IDL, attribute
  setters). An own data property of the object is overwritten. Otherwise the first accessor
  of that name along the prototype chain is called with the object as receiver: the setter
  throws a \<open>TypeError\<close> unless the receiver implements the accessor's interface, and then
  writes the element's attribute. With no such accessor the object gets a new own property.
  On a value that is not an object the assignment throws a \<open>TypeError\<close>: on
  \<open>undefined\<close> and \<open>null\<close> always, on a string because a class body is strict code.
  The outcome is the error thrown, or nothing, together with the window afterwards.
\<close>

definition assign_property ::
  "window \<Rightarrow> js_value \<Rightarrow> string \<Rightarrow> string \<Rightarrow> (js_error + unit) \<times> window" where
  "assign_property w v name val =
     (case v of
        JSObject r \<Rightarrow>
          (let obj = heap w r in
           if own_properties obj name \<noteq> None
           then (Inr (), w\<lparr>heap := (heap w)
                   (r := obj\<lparr>own_properties := (own_properties obj)(name \<mapsto> val)\<rparr>)\<rparr>)
           else (case find_accessor (prototype_chain obj) name of
                   Some i \<Rightarrow>
                     if implements obj = Some i
                     then (Inr (), w\<lparr>heap := (heap w)
                             (r := obj\<lparr>attributes := (attributes obj)(name \<mapsto> val)\<rparr>)\<rparr>)
                     else (Inl TypeError, w)
                 | None \<Rightarrow>
                     (Inr (), w\<lparr>heap := (heap w)
                        (r := obj\<lparr>own_properties := (own_properties obj)(name \<mapsto> val)\<rparr>)\<rparr>)))
      | _ \<Rightarrow> (Inl TypeError, w))"


subsection \<open>The five methods of \<open>QueryHandler\<close>\<close>

text \<open>
  \<^verbatim>\<open>getAllQueryParams\<close> (lines 12-19): the callback of \<^verbatim>\<open>forEach\<close> performs
  \<^verbatim>\<open>result[key] = value\<close> for each tuple in turn, starting from \<^verbatim>\<open>{}\<close>.
\<close>

definition getAllQueryParams :: "window \<Rightarrow> js_object" where
  "getAllQueryParams w =
     foldl (\<lambda>result (key, val). js_assign result key val) []
       (URLSearchParams_new (location_search w))"

text \<open>
  \<^verbatim>\<open>appendQueryParams\<close> (lines 27-33): the constructor may throw, which ends the call;
  otherwise the loop over \<^verbatim>\<open>Object.entries(params)\<close> calls \<^verbatim>\<open>set\<close> and \<^verbatim>\<open>href\<close> is
  returned.
\<close>

definition appendQueryParams :: "host_parser \<Rightarrow> string \<Rightarrow> js_object \<Rightarrow> js_error + string" where
  "appendQueryParams H baseUrl params =
     (case URL_new H baseUrl of
        Inl e \<Rightarrow> Inl e
      | Inr url \<Rightarrow>
          Inr (URL_href (foldl (\<lambda>url (key, val). URLSearchParams_set url key val) url
                 (Object_entries params))))"

text \<open>
  The three sinks (lines 40-46, 52-56, 63-69) return the outcome of the call, an error
  thrown or nothing, together with the window as the call leaves it. The assignment to
  \<open>src\<close> or \<open>href\<close> is the last statement and may itself throw.
\<close>

definition setIframeSrcWithQuery ::
  "host_parser \<Rightarrow> window \<Rightarrow> js_value \<Rightarrow> string \<Rightarrow> (js_error + unit) \<times> window" where
  "setIframeSrcWithQuery H w iframeElement baseIframeUrl =
     (if \<not> instanceof w iframeElement HTMLIFrameElement
      then (Inl (Error ''Provided element is not a valid iframe''), w)
      else let queryParams = getAllQueryParams w in
        case appendQueryParams H baseIframeUrl queryParams of
          Inl e \<Rightarrow> (Inl e, w)
        | Inr u \<Rightarrow> assign_property w iframeElement ''src'' u)"

definition redirectToUrlWithQuery ::
  "host_parser \<Rightarrow> window \<Rightarrow> string \<Rightarrow> (js_error + unit) \<times> window" where
  "redirectToUrlWithQuery H w baseUrl =
     (let queryParams = getAllQueryParams w in
        case appendQueryParams H baseUrl queryParams of
          Inl e \<Rightarrow> (Inl e, w)
        | Inr newUrl \<Rightarrow> (Inr (), w\<lparr>location_href := newUrl\<rparr>))"

definition generateLinkWithQuery ::
  "host_parser \<Rightarrow> window \<Rightarrow> string \<Rightarrow> js_value \<Rightarrow> (js_error + unit) \<times> window" where
  "generateLinkWithQuery H w baseUrl anchorElement =
     (if \<not> instanceof w anchorElement HTMLAnchorElement
      then (Inl (Error ''Provided element is not a valid anchor element''), w)
      else let queryParams = getAllQueryParams w in
        case appendQueryParams H baseUrl queryParams of
          Inl e \<Rightarrow> (Inl e, w)
        | Inr u \<Rightarrow> assign_property w anchorElement ''href'' u)"

subsection \<open>Notions of the specification\<close>


text \<open>A base URL is valid when the constructor accepts it.\<close>

definition is_valid_URL :: "host_parser \<Rightarrow> string \<Rightarrow> bool" where
  "is_valid_URL H s = (case URL_new H s of Inl _ \<Rightarrow> False | Inr _ \<Rightarrow> True)"

text \<open>
  The query parameter map as the specification describes it: the keys of the pairs in the
  order of their first occurrence from left to right, each once, with the value of the
  key's last occurrence.
\<close>

definition first_occurrences :: "'a list \<Rightarrow> 'a list" where
  "first_occurrences xs = rev (remdups (rev xs))"

definition last_value :: "(string \<times> string) list \<Rightarrow> string \<Rightarrow> string" where
  "last_value pairs k = (case map_of (rev pairs) k of Some v \<Rightarrow> v | None \<Rightarrow> [])"

definition left_to_right_map :: "(string \<times> string) list \<Rightarrow> (string \<times> string) list" where
  "left_to_right_map pairs =
     map (\<lambda>k. (k, last_value pairs k)) (first_occurrences (map fst pairs))"

text \<open>
  The merged parameter list as the specification describes it, for the entries \<open>es\<close> of
  \<open>params\<close> and the parameters \<open>ts\<close> of the base URL: the pre-existing parameters
  first, in their original order, one that \<open>params\<close> overwrites updated in place (its
  later duplicates dropped); then the newly added ones in the iteration order of \<open>params\<close>.
\<close>

fun updated_in_place ::
  "(string \<times> string) list \<Rightarrow> (string \<times> string) list \<Rightarrow> (string \<times> string) list" where
  "updated_in_place es [] = []"
| "updated_in_place es ((n, v) # ts) =
     (case map_of es n of
        None \<Rightarrow> (n, v) # updated_in_place es ts
      | Some v' \<Rightarrow> (n, v') # updated_in_place es (filter (\<lambda>t. fst t \<noteq> n) ts))"

definition newly_added ::
  "(string \<times> string) list \<Rightarrow> (string \<times> string) list \<Rightarrow> (string \<times> string) list" where
  "newly_added es ts = filter (\<lambda>p. fst p \<notin> fst ` set ts) es"

definition merged ::
  "(string \<times> string) list \<Rightarrow> (string \<times> string) list \<Rightarrow> (string \<times> string) list" where
  "merged es ts = updated_in_place es ts @ newly_added es ts"

text \<open>
  What the library's round trips expect of the platform's parser for scheme, authority and
  path: a prefix it serializes has no \<open>?\<close>, \<open>#\<close>, tab or newline, does not begin or
  end with a C0 control or space, and is read back as itself. The URL standard's parser and
  serializer are built to satisfy this.
\<close>

definition clean_prefix :: "string \<Rightarrow> bool" where
  "clean_prefix p \<longleftrightarrow>
     p \<noteq> [] \<and> \<not> is_c0_or_space (hd p) \<and> \<not> is_c0_or_space (last p) \<and>
     list_all (\<lambda>c. c \<noteq> CHR ''?'' \<and> c \<noteq> CHR ''#'' \<and> \<not> is_tab_or_newline c) p"

definition reparses :: "host_parser \<Rightarrow> bool" where
  "reparses H \<longleftrightarrow>
     (\<forall>pre sp p. H pre = Some (sp, p) \<longrightarrow> clean_prefix p \<and> H p = Some (sp, p))"

subsection \<open>A window and a host for the examples\<close>

text \<open>
  A window (realm 0) with these objects: 0, an iframe and 1, an anchor created in it; 2,
  another element of it; 3, \<^verbatim>\<open>Object.create(HTMLIFrameElement.prototype)\<close>; 4, an anchor
  and 5, an iframe created in another window (realm 1); every other reference, \<^verbatim>\<open>{}\<close>.
  And a host parser that knows the two origins of the specification's examples.
\<close>

definition element_of :: "nat \<Rightarrow> dom_interface \<Rightarrow> heap_object" where
  "element_of r i =
     \<lparr>prototype_chain =
        (if i = HTMLElement then [InterfacePrototype r HTMLElement, ObjectPrototype]
         else [InterfacePrototype r i, InterfacePrototype r HTMLElement, ObjectPrototype]),
      implements = Some i, own_properties = Map.empty, attributes = Map.empty\<rparr>"

definition example_heap :: "nat \<Rightarrow> heap_object" where
  "example_heap n =
     (if n = 0 then element_of 0 HTMLIFrameElement
      else if n = 1 then element_of 0 HTMLAnchorElement
      else if n = 2 then element_of 0 HTMLElement
      else if n = 3 then (element_of 0 HTMLIFrameElement)\<lparr>implements := None\<rparr>
      else if n = 4 then element_of 1 HTMLAnchorElement
      else if n = 5 then element_of 1 HTMLIFrameElement
      else \<lparr>prototype_chain = [ObjectPrototype], implements = None,
             own_properties = Map.empty, attributes = Map.empty\<rparr>)"

definition example_window :: "string \<Rightarrow> window" where
  "example_window search =
     \<lparr>location_search = search, location_href = ''https://site.test/'' @ search,
      realm = 0, heap = example_heap\<rparr>"

definition example_host :: host_parser where
  "example_host pre =
     (if pre = ''https://example.com'' \<or> pre = ''https://example.com/''
        then Some (True, ''https://example.com/'')
      else if pre = ''https://x.com'' \<or> pre = ''https://x.com/''
        then Some (True, ''https://x.com/'')
      else None)"

section \<open>Properties\<close>

subsection \<open>Errors of the URL constructor\<close>

lemma URL_new_error: "URL_new H s = Inl e \<Longrightarrow> e = TypeError"
  by (cases "url_parts s") (auto simp: URL_new_def Let_def split: option.splits)

lemma appendQueryParams_Inl:
  "appendQueryParams H baseUrl params = Inl e \<longleftrightarrow> URL_new H baseUrl = Inl e"
  by (cases "URL_new H baseUrl") (simp_all add: appendQueryParams_def)

lemma example_invalid: "URL_new example_host ''example.com?a=1'' = Inl TypeError"
  by (simp add: URL_new_def url_parts_def example_host_def strip_c0_or_space_def
      is_c0_or_space_def in_range_def is_tab_or_newline_def split_first_def)

text \<open>
  C3. \<^verbatim>\<open>appendQueryParams\<close> throws exactly when the URL constructor rejects the base URL,
  whatever the parameters are, and what it throws is the constructor's \<open>TypeError\<close>.
\<close>

theorem appendQueryParams_throws_iff_invalid:
  "appendQueryParams H baseUrl params = Inl e \<longleftrightarrow> e = TypeError \<and> \<not> is_valid_URL H baseUrl"
  using URL_new_error [of H baseUrl e]
  by (cases "URL_new H baseUrl")
     (auto simp: appendQueryParams_Inl is_valid_URL_def dest: URL_new_error)

theorem appendQueryParams_throws_iff_invalid_witness:
  "\<not> is_valid_URL example_host ''example.com?a=1'' \<and>
   appendQueryParams example_host ''example.com?a=1'' [(''a'', ''1'')] = Inl TypeError"
  using appendQueryParams_throws_iff_invalid
          [of example_host "''example.com?a=1''" "[(''a'', ''1'')]" TypeError]
  by (simp add: is_valid_URL_def example_invalid)

subsection \<open>The map read from the query string\<close>

lemma first_occurrences_snoc:
  "first_occurrences (xs @ [x]) =
     (if x \<in> set xs then first_occurrences xs else first_occurrences xs @ [x])"
  by (simp add: first_occurrences_def)

lemma set_first_occurrences: "set (first_occurrences xs) = set xs"
  by (simp add: first_occurrences_def)

lemma last_value_snoc:
  "last_value (ps @ [(k, v)]) k' = (if k' = k then v else last_value ps k')"
  by (simp add: last_value_def)

lemma keys_left_to_right_map: "fst ` set (left_to_right_map ps) = fst ` set ps"
  by (simp add: left_to_right_map_def set_first_occurrences image_image)

lemma left_to_right_map_snoc:
  "left_to_right_map (ps @ [(k, v)]) =
     (if k \<in> fst ` set ps
      then map (\<lambda>(k', v'). if k' = k then (k', v) else (k', v')) (left_to_right_map ps)
      else left_to_right_map ps @ [(k, v)])"
  by (auto simp: left_to_right_map_def first_occurrences_snoc last_value_snoc set_first_occurrences)

lemma js_assign_left_to_right_map:
  "k \<noteq> ''__proto__'' \<Longrightarrow>
   js_assign (left_to_right_map ps) k v = left_to_right_map (ps @ [(k, v)])"
  unfolding js_assign_def left_to_right_map_snoc keys_left_to_right_map by simp

lemma foldl_js_assign:
  "foldl (\<lambda>result (key, val). js_assign result key val) [] ps =
     left_to_right_map (filter (\<lambda>p. fst p \<noteq> ''__proto__'') ps)"
proof (induction ps rule: rev_induct)
  case Nil
  show ?case by (simp add: left_to_right_map_def first_occurrences_def)
next
  case (snoc p ps)
  obtain k v where p: "p = (k, v)" by (cases p)
  show ?case
  proof (cases "k = ''__proto__''")
    case True
    with snoc p show ?thesis by (simp add: js_assign_def)
  next
    case False
    with snoc p show ?thesis by (simp add: js_assign_left_to_right_map)
  qed
qed

lemma getAllQueryParams_eq:
  "getAllQueryParams w =
     left_to_right_map
       (filter (\<lambda>p. fst p \<noteq> ''__proto__'') (URLSearchParams_new (location_search w)))"
  by (simp add: getAllQueryParams_def foldl_js_assign)

text \<open>
  For every key but \<open>__proto__\<close> the returned map has the pairs of the query string, the
  last occurrence of a key winning; there is no input on which the method throws.
\<close>

lemma map_of_left_to_right_map: "map_of (left_to_right_map ps) k = map_of (rev ps) k"
proof (cases "k \<in> fst ` set ps")
  case True
  then obtain v where "map_of (rev ps) k = Some v"
    by (metis image_set map_of_eq_None_iff not_Some_eq set_rev)
  with True show ?thesis
    by (simp add: left_to_right_map_def map_of_map_restrict set_first_occurrences last_value_def)
next
  case False
  then have "map_of (rev ps) k = None" by (simp add: map_of_eq_None_iff)
  with False show ?thesis
    by (simp add: left_to_right_map_def map_of_map_restrict set_first_occurrences)
qed

lemma getAllQueryParams_lookup:
  "k \<noteq> ''__proto__'' \<Longrightarrow>
   map_of (getAllQueryParams w) k = map_of (rev (URLSearchParams_new (location_search w))) k"
proof -
  assume k: "k \<noteq> ''__proto__''"
  have "map_of (rev (filter (\<lambda>p. fst p \<noteq> ''__proto__'') ps)) k = map_of (rev ps) k"
    for ps :: "(string \<times> string) list"
    using k by (induction ps) (auto simp: map_add_def split: option.splits)
  then show ?thesis by (simp add: getAllQueryParams_eq map_of_left_to_right_map)
qed

lemma search_example_window [simp]: "location_search (example_window s) = s"
  by (simp add: example_window_def)

lemma parse_proto: "URLSearchParams_new ''?__proto__=1'' = [(''__proto__'', ''1'')]"
  by code_simp

text \<open>
  C2. The entries of the returned map do not always match the pairs of the query string:
  for \<open>?__proto__=1\<close> the parser yields the pair \<open>(__proto__, 1)\<close> and the returned
  object has no property at all, because the assignment in the callback reaches the
  inherited setter.
\<close>

theorem getAllQueryParams_drops_proto:
  "URLSearchParams_new (location_search (example_window ''?__proto__=1'')) = [(''__proto__'', ''1'')] \<and>
   getAllQueryParams (example_window ''?__proto__=1'') = []"
  by (simp add: getAllQueryParams_def parse_proto js_assign_def)

lemma array_index_examples:
  "is_array_index ''2''" "is_array_index ''10''" "\<not> is_array_index ''b''"
  "digits_value ''2'' = 2" "digits_value ''10'' = 10"
  by (simp_all add: is_array_index_def digits_value_def in_range_def)

lemma parse_b2: "URLSearchParams_new ''?b=1&2=x'' = [(''b'', ''1''), (''2'', ''x'')]"
  by code_simp

lemma ltr_b2: "left_to_right_map [(''b'', ''1''), (''2'', ''x'')] = [(''b'', ''1''), (''2'', ''x'')]"
  by (simp add: left_to_right_map_def first_occurrences_def last_value_def)

text \<open>
  C9 does not hold as stated. The enumeration of the returned map is not in left-to-right
  order when a key is an array index: for the query string \<open>?b=1&2=x\<close> it starts
  with \<open>2\<close>, the query string with \<open>b\<close>.
\<close>

theorem getAllQueryParams_reorders_index_keys:
  "Object_entries (getAllQueryParams (example_window ''?b=1&2=x''))
     \<noteq> left_to_right_map (URLSearchParams_new (location_search (example_window ''?b=1&2=x''))) \<and>
   Object_entries (getAllQueryParams (example_window ''?b=1&2=x'')) = [(''2'', ''x''), (''b'', ''1'')] \<and>
   left_to_right_map (URLSearchParams_new (location_search (example_window ''?b=1&2=x'')))
     = [(''b'', ''1''), (''2'', ''x'')]"
  by (simp add: getAllQueryParams_eq parse_b2 ltr_b2 Object_entries_def array_index_examples)

text \<open>
  C9, amended. When no key of the query string is \<open>__proto__\<close>, the returned object holds
  the parsed keys in the order of their first occurrence, each once, with the parsed value
  of its last occurrence (values are text, as parsed). Its enumeration, which is the order
  \<^verbatim>\<open>appendQueryParams\<close> and any caller see, lists the keys that are array indices
  first, in ascending numeric order, and then the other keys in that left-to-right order.
\<close>

theorem getAllQueryParams_entry_order:
  "''__proto__'' \<notin> fst ` set (URLSearchParams_new (location_search w)) \<Longrightarrow>
   getAllQueryParams w = left_to_right_map (URLSearchParams_new (location_search w)) \<and>
   Object_entries (getAllQueryParams w) =
     sort_key (\<lambda>p. digits_value (fst p))
        (filter (\<lambda>p. is_array_index (fst p))
           (left_to_right_map (URLSearchParams_new (location_search w))))
     @ filter (\<lambda>p. \<not> is_array_index (fst p))
         (left_to_right_map (URLSearchParams_new (location_search w)))"
proof -
  assume a: "''__proto__'' \<notin> fst ` set (URLSearchParams_new (location_search w))"
  have "filter (\<lambda>p. fst p \<noteq> ''__proto__'') (URLSearchParams_new (location_search w))
          = URLSearchParams_new (location_search w)"
    using a by (force simp: filter_id_conv)
  then have "getAllQueryParams w = left_to_right_map (URLSearchParams_new (location_search w))"
    by (simp add: getAllQueryParams_eq)
  then show ?thesis by (simp add: Object_entries_def)
qed

lemma parse_b102: "URLSearchParams_new ''?b=1&10=y&2=x&b=3'' = [(''b'',''1''),(''10'',''y''),(''2'',''x''),(''b'',''3'')]"
  by code_simp

lemma ltr_b102: "left_to_right_map [(''b'',''1''),(''10'',''y''),(''2'',''x''),(''b'',''3'')] = [(''b'',''3''),(''10'',''y''),(''2'',''x'')]"
  by (simp add: left_to_right_map_def first_occurrences_def last_value_def)

theorem getAllQueryParams_entry_order_witness:
  "''__proto__'' \<notin> fst ` set (URLSearchParams_new (location_search (example_window ''?b=1&10=y&2=x&b=3''))) \<and>
   getAllQueryParams (example_window ''?b=1&10=y&2=x&b=3'') = [(''b'',''3''),(''10'',''y''),(''2'',''x'')] \<and>
   Object_entries (getAllQueryParams (example_window ''?b=1&10=y&2=x&b=3'')) = [(''2'', ''x''), (''10'', ''y''), (''b'', ''3'')]"
proof -
  have h: "''__proto__'' \<notin> fst ` set (URLSearchParams_new (location_search (example_window ''?b=1&10=y&2=x&b=3'')))"
    by (simp add: parse_b102)
  from getAllQueryParams_entry_order [OF h] h show ?thesis
    by (simp add: parse_b102 ltr_b102 array_index_examples Object_entries_def)
qed

subsection \<open>The sinks\<close>

lemma find_accessor_src:
  "InterfacePrototype r HTMLIFrameElement \<in> set ps \<Longrightarrow>
   find_accessor ps ''src'' = Some HTMLIFrameElement"
proof (induction ps)
  case Nil
  then show ?case by simp
next
  case (Cons p ps)
  then show ?case
    by (cases "(p, ''src'')" rule: accessor_on.cases) auto
qed


lemma assign_property_error:
  "fst (assign_property w v name val) = Inl e \<Longrightarrow>
   e = TypeError \<and> snd (assign_property w v name val) = w"
  by (auto simp: assign_property_def Let_def split: js_value.splits option.splits if_splits)

lemma sink_body_error:
  assumes "fst (case appendQueryParams H baseUrl params of
                  Inl e \<Rightarrow> (Inl e, w) | Inr u \<Rightarrow> assign_property w v name u) = Inl e"
  shows "e = TypeError"
    and "snd (case appendQueryParams H baseUrl params of
                Inl e \<Rightarrow> (Inl e, w) | Inr u \<Rightarrow> assign_property w v name u) = w"
proof -
  show "e = TypeError"
  proof (cases "appendQueryParams H baseUrl params")
    case (Inl e')
    with assms have "URL_new H baseUrl = Inl e" by (simp add: appendQueryParams_Inl)
    then show ?thesis by (rule URL_new_error)
  next
    case (Inr u)
    with assms show ?thesis by (simp add: assign_property_error)
  qed
  show "snd (case appendQueryParams H baseUrl params of
                Inl e \<Rightarrow> (Inl e, w) | Inr u \<Rightarrow> assign_property w v name u) = w"
  proof (cases "appendQueryParams H baseUrl params")
    case (Inl e')
    then show ?thesis by simp
  next
    case (Inr u)
    with assms show ?thesis by (simp add: assign_property_error)
  qed
qed

lemma example_instances:
  "instanceof (example_window s) (JSObject 0) HTMLIFrameElement"
  "instanceof (example_window s) (JSObject 1) HTMLAnchorElement"
  "\<not> instanceof (example_window s) (JSObject 2) HTMLIFrameElement"
  "instanceof (example_window s) (JSObject 3) HTMLIFrameElement"
  "\<not> instanceof (example_window s) (JSObject 4) HTMLAnchorElement"
  "\<not> instanceof (example_window s) (JSObject 5) HTMLIFrameElement"
  "\<not> instanceof (example_window s) (JSObject 6) HTMLAnchorElement"
  "\<not> instanceof (example_window s) JSNull HTMLAnchorElement"
  by (simp_all add: instanceof_def example_window_def example_heap_def element_of_def)



lemma getAllQueryParams_id5:
  "location_search w = ''?id=5'' \<Longrightarrow> getAllQueryParams w = [(''id'', ''5'')]"
proof -
  have "URLSearchParams_new ''?id=5'' = [(''id'', ''5'')]" by code_simp
  then show "location_search w = ''?id=5'' \<Longrightarrow> getAllQueryParams w = [(''id'', ''5'')]"
    by (simp add: getAllQueryParams_def js_assign_def)
qed

lemma url_parts_x: "url_parts ''https://x.com'' = (''https://x.com'', None, None)"
  by (simp add: url_parts_def strip_c0_or_space_def is_c0_or_space_def in_range_def
      is_tab_or_newline_def split_first_def)

lemma entries_id5: "Object_entries [(''id'', ''5'')] = [(''id'', ''5'')]"
  by (simp add: Object_entries_def is_array_index_def in_range_def)

lemma append_x_id5:
  "H ''https://x.com'' = Some (sp, ''https://x.com/'') \<Longrightarrow>
   appendQueryParams H ''https://x.com'' [(''id'', ''5'')] = Inr ''https://x.com/?id=5''"
  by (simp add: appendQueryParams_def URL_new_def url_parts_x entries_id5 URLSearchParams_set_def
      urlencoded_parse_def URL_href_def urlencoded_encode_def urlencoded_byte_def
      is_ascii_alphanumeric_def in_range_def)

lemma example_host_x: "example_host ''https://x.com'' = Some (True, ''https://x.com/'')"
  by (simp add: example_host_def)


lemma example_append_id5:
  "appendQueryParams example_host ''https://x.com'' (getAllQueryParams (example_window ''?id=5''))
     = Inr ''https://x.com/?id=5''"
  by (simp add: getAllQueryParams_id5 append_x_id5 [of example_host True] example_host_x)




text \<open>
  C5. When \<^verbatim>\<open>setIframeSrcWithQuery\<close> or \<^verbatim>\<open>generateLinkWithQuery\<close> throws, whether for
  the element or for the base URL, the window and every object in it are as they were before
  the call: nothing has been assigned.
\<close>

theorem sinks_fail_without_effect: "(fst (setIframeSrcWithQuery H w iframeElement baseIframeUrl) = Inl e \<longrightarrow>
     snd (setIframeSrcWithQuery H w iframeElement baseIframeUrl) = w) \<and>
   (fst (generateLinkWithQuery H w baseUrl anchorElement) = Inl e' \<longrightarrow>
     snd (generateLinkWithQuery H w baseUrl anchorElement) = w)"
proof (intro conjI impI)
  assume a: "fst (setIframeSrcWithQuery H w iframeElement baseIframeUrl) = Inl e"
  show "snd (setIframeSrcWithQuery H w iframeElement baseIframeUrl) = w"
  proof (cases "instanceof w iframeElement HTMLIFrameElement")
    case False
    then show ?thesis by (simp add: setIframeSrcWithQuery_def)
  next
    case True
    with a sink_body_error(2) [where H = H and baseUrl = baseIframeUrl and params = "getAllQueryParams w"
        and w = w and v = iframeElement and name = "''src''" and e = e]
    show ?thesis by (simp add: setIframeSrcWithQuery_def)
  qed
next
  assume a: "fst (generateLinkWithQuery H w baseUrl anchorElement) = Inl e'"
  show "snd (generateLinkWithQuery H w baseUrl anchorElement) = w"
  proof (cases "instanceof w anchorElement HTMLAnchorElement")
    case False
    then show ?thesis by (simp add: generateLinkWithQuery_def)
  next
    case True
    with a sink_body_error(2) [where H = H and baseUrl = baseUrl and params = "getAllQueryParams w"
        and w = w and v = anchorElement and name = "''href''" and e = e']
    show ?thesis by (simp add: generateLinkWithQuery_def)
  qed
qed

theorem sinks_fail_without_effect_witness:
  "fst (setIframeSrcWithQuery example_host (example_window ''?id=5'') (JSObject 2) ''https://x.com'')
     = Inl (Error ''Provided element is not a valid iframe'') \<and>
   snd (setIframeSrcWithQuery example_host (example_window ''?id=5'') (JSObject 2) ''https://x.com'')
     = example_window ''?id=5'' \<and>
   fst (generateLinkWithQuery example_host (example_window ''?id=5'') ''example.com?a=1'' (JSObject 1))
     = Inl TypeError \<and>
   snd (generateLinkWithQuery example_host (example_window ''?id=5'') ''example.com?a=1'' (JSObject 1))
     = example_window ''?id=5'' \<and>
   fst (setIframeSrcWithQuery example_host (example_window ''?id=5'') (JSObject 3) ''https://x.com'')
     = Inl TypeError \<and>
   snd (setIframeSrcWithQuery example_host (example_window ''?id=5'') (JSObject 3) ''https://x.com'')
     = example_window ''?id=5''"
proof -
  have 1: "fst (setIframeSrcWithQuery example_host (example_window ''?id=5'') (JSObject 2) ''https://x.com'')
     = Inl (Error ''Provided element is not a valid iframe'')"
    by (simp add: setIframeSrcWithQuery_def example_instances)
  have 2: "fst (generateLinkWithQuery example_host (example_window ''?id=5'') ''example.com?a=1'' (JSObject 1))
     = Inl TypeError"
    by (simp add: generateLinkWithQuery_def example_instances appendQueryParams_def example_invalid
        del: One_nat_def)
  have "assign_property (example_window ''?id=5'') (JSObject 3) ''src'' ''https://x.com/?id=5''
          = (Inl TypeError, example_window ''?id=5'')"
    by (simp add: assign_property_def example_window_def example_heap_def element_of_def)
  then have 3: "fst (setIframeSrcWithQuery example_host (example_window ''?id=5'') (JSObject 3) ''https://x.com'')
     = Inl TypeError"
    by (simp add: setIframeSrcWithQuery_def example_instances example_append_id5)
  from 1 2 3
    sinks_fail_without_effect [of example_host "example_window ''?id=5''" "JSObject 2" "''https://x.com''"
       "Error ''Provided element is not a valid iframe''" "''example.com?a=1''" "JSObject 1" TypeError]
    sinks_fail_without_effect [of example_host "example_window ''?id=5''" "JSObject 3" "''https://x.com''"
       TypeError "''example.com?a=1''" "JSObject 1" TypeError]
  show ?thesis by simp
qed





subsection \<open>The merge performed by \<open>appendQueryParams\<close>\<close>

lemma keys_list_set: "fst ` set (list_set ts k v) = insert k (fst ` set ts)"
  by (induction ts k v rule: list_set.induct) auto

lemma filter_list_set:
  "n \<noteq> k \<Longrightarrow> filter (\<lambda>t. fst t \<noteq> n) (list_set ts k v) = list_set (filter (\<lambda>t. fst t \<noteq> n) ts) k v"
  by (induction ts k v rule: list_set.induct) (auto simp: conj_commute)

lemma updated_in_place_Cons_absent:
  "k \<notin> fst ` set ts \<Longrightarrow> updated_in_place ((k, v) # es) ts = updated_in_place es ts"
  by (induction es ts rule: updated_in_place.induct) (auto split: option.splits)

lemma updated_in_place_list_set:
  "map_of es k = None \<Longrightarrow>
   updated_in_place es (list_set ts k v) =
     (if k \<in> fst ` set ts then updated_in_place ((k, v) # es) ts
      else updated_in_place es ts @ [(k, v)])"
proof (induction es ts rule: updated_in_place.induct)
  case (1 es)
  then show ?case by simp
next
  case (2 es n x ts)
  show ?case
  proof (cases "n = k")
    case True
    have "k \<notin> fst ` set (filter (\<lambda>t. fst t \<noteq> k) ts)" by auto
    from updated_in_place_Cons_absent [OF this] True 2(3) show ?thesis by simp
  next
    case False
    show ?thesis
    proof (cases "map_of es n")
      case None
      with False 2(1) 2(3) show ?thesis by auto
    next
      case (Some y)
      have "k \<in> fst ` set (filter (\<lambda>t. fst t \<noteq> n) ts) \<longleftrightarrow> k \<in> fst ` set ts"
        using False by force
      with Some False 2(2) 2(3) show ?thesis by (simp add: filter_list_set)
    qed
  qed
qed

lemma newly_added_list_set:
  "map_of es k = None \<Longrightarrow> newly_added es (list_set ts k v) = newly_added es ts"
  unfolding newly_added_def keys_list_set
  by (rule filter_cong) (auto simp: map_of_eq_None_iff)

lemma newly_added_Cons:
  "newly_added ((k, v) # es) ts =
     (if k \<in> fst ` set ts then newly_added es ts else (k, v) # newly_added es ts)"
  by (simp add: newly_added_def)

lemma merged_list_set:
  "map_of es k = None \<Longrightarrow> merged es (list_set ts k v) = merged ((k, v) # es) ts"
  by (simp add: merged_def updated_in_place_list_set newly_added_list_set newly_added_Cons
      updated_in_place_Cons_absent)

lemma foldl_list_set:
  "distinct (map fst es) \<Longrightarrow>
   foldl (\<lambda>l (key, val). list_set l key val) ts es = merged es ts"
proof (induction es arbitrary: ts)
  case Nil
  have "updated_in_place [] ts = ts" for ts :: "(string \<times> string) list"
    by (induction ts) auto
  then show ?case by (simp add: merged_def newly_added_def)
next
  case (Cons e es)
  obtain k v where e: "e = (k, v)" by (cases e)
  with Cons.prems have "map_of es k = None" by (simp add: map_of_eq_None_iff)
  with Cons e show ?case by (simp add: merged_list_set)
qed


lemma keys_updated_in_place: "fst ` set (updated_in_place es ts) = fst ` set ts"
  by (induction es ts rule: updated_in_place.induct) (auto split: option.splits)

lemma filter_other_updated_in_place:
  "filter (\<lambda>t. fst t \<notin> fst ` set es) (updated_in_place es ts)
     = filter (\<lambda>t. fst t \<notin> fst ` set es) ts"
proof (induction es ts rule: updated_in_place.induct)
  case (1 es)
  show ?case by simp
next
  case (2 es n v ts)
  show ?case
  proof (cases "map_of es n")
    case None
    then have "n \<notin> fst ` set es" by (simp add: map_of_eq_None_iff)
    with None 2(1) [OF None] show ?thesis by simp
  next
    case (Some y)
    then have n: "n \<in> fst ` set es" by (metis map_of_eq_None_iff option.distinct(1))
    have "filter (\<lambda>t. fst t \<notin> fst ` set es) (filter (\<lambda>t. fst t \<noteq> n) ts)
            = filter (\<lambda>t. fst t \<notin> fst ` set es) ts"
      using n by (auto intro: filter_cong)
    with Some n 2(2) show ?thesis by simp
  qed
qed

lemma filter_key_updated_in_place:
  "map_of es k = Some v \<Longrightarrow>
   filter (\<lambda>t. fst t = k) (updated_in_place es ts) = (if k \<in> fst ` set ts then [(k, v)] else [])"
proof (induction es ts rule: updated_in_place.induct)
  case (1 es)
  show ?case by simp
next
  case (2 es n x ts)
  show ?case
  proof (cases "map_of es n")
    case None
    with 2(1) 2(3) show ?thesis by auto
  next
    case (Some y)
    show ?thesis
    proof (cases "n = k")
      case True
      have "k \<notin> fst ` set (updated_in_place es (filter (\<lambda>t. fst t \<noteq> k) ts))"
        unfolding keys_updated_in_place by auto
      then have "filter (\<lambda>t. fst t = k) (updated_in_place es (filter (\<lambda>t. fst t \<noteq> k) ts)) = []"
        unfolding filter_empty_conv by force
      with Some True 2(3) show ?thesis by simp
    next
      case False
      have "k \<in> fst ` set (filter (\<lambda>t. fst t \<noteq> n) ts) \<longleftrightarrow> k \<in> fst ` set ts"
        using False by force
      with Some False 2(2) 2(3) show ?thesis by simp
    qed
  qed
qed

lemma merged_sets_each:
  assumes "distinct (map fst es)" and "(k, v) \<in> set es"
  shows "filter (\<lambda>t. fst t = k) (merged es ts) = [(k, v)]"
proof -
  from assms have m: "map_of es k = Some v" by simp
  have "filter (\<lambda>t. fst t = k) es = [(k, v)]"
    using assms
  proof (induction es)
    case Nil
    then show ?case by simp
  next
    case (Cons e es)
    then show ?case by (cases e) (force simp: filter_empty_conv)
  qed
  moreover have "filter (\<lambda>t. fst t = k) (newly_added es ts)
      = (if k \<in> fst ` set ts then [] else filter (\<lambda>t. fst t = k) es)"
    unfolding newly_added_def filter_filter
    by (auto simp: filter_empty_conv intro!: filter_cong)
  ultimately have "filter (\<lambda>t. fst t = k) (newly_added es ts)
      = (if k \<in> fst ` set ts then [] else [(k, v)])"
    by simp
  with m show ?thesis by (simp add: merged_def filter_key_updated_in_place)
qed

lemma merged_preserves_others:
  "filter (\<lambda>t. fst t \<notin> fst ` set es) (merged es ts) = filter (\<lambda>t. fst t \<notin> fst ` set es) ts"
proof -
  have "filter (\<lambda>t. fst t \<notin> fst ` set es) (newly_added es ts) = []"
    by (auto simp: newly_added_def filter_empty_conv)
  then show ?thesis by (simp add: merged_def filter_other_updated_in_place)
qed

lemma updated_in_place_append:
  "updated_in_place es (xs @ zs) =
     updated_in_place es xs
       @ updated_in_place es
           (filter (\<lambda>t. \<not> (fst t \<in> fst ` set es \<and> fst t \<in> fst ` set xs)) zs)"
proof (induction es xs arbitrary: zs rule: updated_in_place.induct)
  case (1 es)
  show ?case by simp
next
  case (2 es n v ts)
  show ?case
  proof (cases "map_of es n")
    case None
    then have "n \<notin> fst ` set es" by (simp add: map_of_eq_None_iff)
    then have "filter (\<lambda>t. \<not> (fst t \<in> fst ` set es \<and> fst t \<in> fst ` set ((n, v) # ts))) zs
             = filter (\<lambda>t. \<not> (fst t \<in> fst ` set es \<and> fst t \<in> fst ` set ts)) zs"
      by (auto intro!: filter_cong)
    with None 2(1) show ?thesis by simp
  next
    case (Some y)
    then have n: "n \<in> fst ` set es" by (metis map_of_eq_None_iff option.distinct(1))
    have "filter (\<lambda>t. \<not> (fst t \<in> fst ` set es \<and> fst t \<in> fst ` set (filter (\<lambda>t. fst t \<noteq> n) ts)))
            (filter (\<lambda>t. fst t \<noteq> n) zs)
          = filter (\<lambda>t. \<not> (fst t \<in> fst ` set es \<and> fst t \<in> fst ` set ((n, v) # ts))) zs"
      unfolding filter_filter using n by (intro filter_cong) force+
    with Some 2(2) [OF Some, of "filter (\<lambda>t. fst t \<noteq> n) zs"] show ?thesis by simp
  qed
qed

lemma urlencoded_serialize_nonempty: "ts \<noteq> [] \<Longrightarrow> urlencoded_serialize ts \<noteq> []"
  by (induction ts rule: urlencoded_serialize.induct) simp_all

lemma list_set_nonempty: "list_set ts k v \<noteq> []"
  by (induction ts k v rule: list_set.induct) simp_all

lemma foldl_URLSearchParams_set:
  "foldl (\<lambda>url (key, val). URLSearchParams_set url key val) url es =
     (if es = [] then url
      else url\<lparr>searchParams := foldl (\<lambda>l (key, val). list_set l key val) (searchParams url) es,
               query := Some (urlencoded_serialize
                  (foldl (\<lambda>l (key, val). list_set l key val) (searchParams url) es))\<rparr>)"
proof (induction es rule: rev_induct)
  case Nil
  show ?case by simp
next
  case (snoc e es)
  obtain k v where e: "e = (k, v)" by (cases e)
  with snoc show ?case
    by (simp add: URLSearchParams_set_def Let_def urlencoded_serialize_nonempty list_set_nonempty)
qed

lemma set_Object_entries: "set (Object_entries obj) = set obj"
  by (auto simp: Object_entries_def)

lemma distinct_Object_entries:
  assumes "distinct (map fst obj)"
  shows "distinct (map fst (Object_entries obj))"
proof -
  from assms have d: "distinct obj" and i: "inj_on fst (set obj)"
    by (simp_all add: distinct_map)
  have "distinct (Object_entries obj)"
    using d by (auto simp: Object_entries_def)
  with i show ?thesis by (simp add: distinct_map set_Object_entries)
qed

lemma Object_entries_Nil_iff: "Object_entries obj = [] \<longleftrightarrow> obj = []"
  using set_Object_entries [of obj] by (metis set_empty)

lemma appendQueryParams_eq:
  assumes "URL_new H baseUrl = Inr url" and "distinct (map fst params)"
  shows "appendQueryParams H baseUrl params =
     Inr (URL_href
       (if params = [] then url
        else url\<lparr>searchParams := merged (Object_entries params) (searchParams url),
                 query := Some (urlencoded_serialize
                            (merged (Object_entries params) (searchParams url)))\<rparr>))"
  using assms
  by (simp add: appendQueryParams_def foldl_URLSearchParams_set foldl_list_set
      distinct_Object_entries Object_entries_Nil_iff)

text \<open>
  C1. For a base URL the constructor accepts and a parameter object (its keys distinct, as
  the keys of an object are), \<^verbatim>\<open>appendQueryParams\<close> returns the serialization of the parsed
  base URL whose parameter list is the merged list of the specification, written back as its
  query (no parameters to merge leave the URL as parsed). In that list every entry of
  \<open>params\<close> occurs exactly once, with the value \<open>params\<close> gives it, and the parameters
  whose names are not in \<open>params\<close> are as they were. In particular
  \<open>https://example.com?a=9\<close> with \<open>{a: "1"}\<close> gives \<open>https://example.com/?a=1\<close>,
  the platform serializing the origin as \<open>https://example.com/\<close>.
\<close>

theorem appendQueryParams_merges:
  "(URL_new H baseUrl = Inr url \<and> distinct (map fst params) \<longrightarrow>
      appendQueryParams H baseUrl params =
        Inr (URL_href
          (if params = [] then url
           else url\<lparr>searchParams := merged (Object_entries params) (searchParams url),
                    query := Some (urlencoded_serialize
                               (merged (Object_entries params) (searchParams url)))\<rparr>)) \<and>
      (\<forall>(k, v) \<in> set params.
          filter (\<lambda>t. fst t = k) (merged (Object_entries params) (searchParams url)) = [(k, v)]) \<and>
      filter (\<lambda>t. fst t \<notin> fst ` set params) (merged (Object_entries params) (searchParams url))
        = filter (\<lambda>t. fst t \<notin> fst ` set params) (searchParams url)) \<and>
   (H ''https://example.com'' = Some (sp, ''https://example.com/'') \<longrightarrow>
      appendQueryParams H ''https://example.com?a=9'' [(''a'', ''1'')] = Inr ''https://example.com/?a=1'')"
proof (intro conjI impI ballI)
  assume a: "URL_new H baseUrl = Inr url \<and> distinct (map fst params)"
  then show "appendQueryParams H baseUrl params =
        Inr (URL_href
          (if params = [] then url
           else url\<lparr>searchParams := merged (Object_entries params) (searchParams url),
                    query := Some (urlencoded_serialize
                               (merged (Object_entries params) (searchParams url)))\<rparr>))"
    by (simp add: appendQueryParams_eq)
  from a have d: "distinct (map fst (Object_entries params))"
    by (simp add: distinct_Object_entries)
  show "case e of (k, v) \<Rightarrow>
          filter (\<lambda>t. fst t = k) (merged (Object_entries params) (searchParams url)) = [(k, v)]"
    if e: "e \<in> set params" for e
  proof -
    obtain k v where kv: "e = (k, v)" by (cases e)
    with e merged_sets_each [OF d, of k v "searchParams url"] show ?thesis
      by (simp add: set_Object_entries)
  qed
  from merged_preserves_others [of "Object_entries params" "searchParams url"]
  show "filter (\<lambda>t. fst t \<notin> fst ` set params) (merged (Object_entries params) (searchParams url))
        = filter (\<lambda>t. fst t \<notin> fst ` set params) (searchParams url)"
    by (simp add: set_Object_entries)
next
  assume h: "H ''https://example.com'' = Some (sp, ''https://example.com/'')"
  have p: "url_parts ''https://example.com?a=9'' = (''https://example.com'', Some ''a=9'', None)"
    by (simp add: url_parts_def strip_c0_or_space_def is_c0_or_space_def in_range_def
        is_tab_or_newline_def split_first_def)
  have q: "percent_encode (if sp then special_query_set else query_set) ''a=9'' = ''a=9''"
    by (simp add: percent_encode_def special_query_set_def query_set_def c0_control_set_def in_range_def)
  have l: "urlencoded_parse ''a=9'' = [(''a'', ''9'')]"
    by code_simp
  have e: "Object_entries [(''a'', ''1'')] = [(''a'', ''1'')]"
    by (simp add: Object_entries_def is_array_index_def in_range_def)
  show "appendQueryParams H ''https://example.com?a=9'' [(''a'', ''1'')] = Inr ''https://example.com/?a=1''"
    by (simp add: appendQueryParams_def URL_new_def p h q l e URLSearchParams_set_def URL_href_def
        urlencoded_encode_def urlencoded_byte_def is_ascii_alphanumeric_def in_range_def)
qed

lemma example_host_example:
  "example_host ''https://example.com'' = Some (True, ''https://example.com/'')"
  by (simp add: example_host_def)

lemma URL_new_example_dup:
  "URL_new example_host ''https://example.com?b=0&a=9&b=2&a=7&c=5'' =
     Inr \<lparr>special = True, prefix = ''https://example.com/'', query = Some ''b=0&a=9&b=2&a=7&c=5'',
          fragment = None,
          searchParams = [(''b'', ''0''), (''a'', ''9''), (''b'', ''2''), (''a'', ''7''), (''c'', ''5'')]\<rparr>"
proof -
  have p: "url_parts ''https://example.com?b=0&a=9&b=2&a=7&c=5''
             = (''https://example.com'', Some ''b=0&a=9&b=2&a=7&c=5'', None)"
    by (simp add: url_parts_def strip_c0_or_space_def is_c0_or_space_def in_range_def
        is_tab_or_newline_def split_first_def)
  have q: "percent_encode special_query_set ''b=0&a=9&b=2&a=7&c=5'' = ''b=0&a=9&b=2&a=7&c=5''"
    by (simp add: percent_encode_def special_query_set_def query_set_def c0_control_set_def in_range_def)
  have l: "urlencoded_parse ''b=0&a=9&b=2&a=7&c=5''
             = [(''b'', ''0''), (''a'', ''9''), (''b'', ''2''), (''a'', ''7''), (''c'', ''5'')]"
    by code_simp
  show ?thesis
    by (simp add: URL_new_def p example_host_example q l)
qed

lemma entries_example: "Object_entries [(''d'', ''4''), (''a'', ''1'')] = [(''d'', ''4''), (''a'', ''1'')]"
  by (simp add: Object_entries_def is_array_index_def in_range_def)

theorem appendQueryParams_merges_witness:
  "URL_new example_host ''https://example.com?b=0&a=9&b=2&a=7&c=5'' =
     Inr \<lparr>special = True, prefix = ''https://example.com/'', query = Some ''b=0&a=9&b=2&a=7&c=5'',
          fragment = None,
          searchParams = [(''b'', ''0''), (''a'', ''9''), (''b'', ''2''), (''a'', ''7''), (''c'', ''5'')]\<rparr> \<and>
   distinct (map fst [(''d'', ''4''), (''a'', ''1'')]) \<and>
   appendQueryParams example_host ''https://example.com?b=0&a=9&b=2&a=7&c=5'' [(''d'', ''4''), (''a'', ''1'')]
     = Inr ''https://example.com/?b=0&a=1&b=2&c=5&d=4'' \<and>
   example_host ''https://example.com'' = Some (True, ''https://example.com/'') \<and>
   appendQueryParams example_host ''https://example.com?a=9'' [(''a'', ''1'')]
     = Inr ''https://example.com/?a=1''"
proof -
  have d: "distinct (map fst [(''d'', ''4''), (''a'', ''1'')])" by simp
  have m: "merged [(''d'', ''4''), (''a'', ''1'')]
             [(''b'', ''0''), (''a'', ''9''), (''b'', ''2''), (''a'', ''7''), (''c'', ''5'')]
           = [(''b'', ''0''), (''a'', ''1''), (''b'', ''2''), (''c'', ''5''), (''d'', ''4'')]"
    by (simp add: merged_def newly_added_def)
  have s: "urlencoded_serialize [(''b'', ''0''), (''a'', ''1''), (''b'', ''2''), (''c'', ''5''), (''d'', ''4'')]
           = ''b=0&a=1&b=2&c=5&d=4''"
    by (simp add: urlencoded_encode_def urlencoded_byte_def is_ascii_alphanumeric_def in_range_def)
  from appendQueryParams_merges [of example_host "''https://example.com?b=0&a=9&b=2&a=7&c=5''"
      "\<lparr>special = True, prefix = ''https://example.com/'', query = Some ''b=0&a=9&b=2&a=7&c=5'',
          fragment = None,
          searchParams = [(''b'', ''0''), (''a'', ''9''), (''b'', ''2''), (''a'', ''7''), (''c'', ''5'')]\<rparr>"
      "[(''d'', ''4''), (''a'', ''1'')]" True]
    URL_new_example_dup d example_host_example
  show ?thesis
    by (simp add: entries_example m s URL_href_def del: urlencoded_serialize.simps)
qed

text \<open>
  C10. When the name \<open>k\<close> of an entry of \<open>params\<close> occurs in the query of the base URL,
  first after the parameters \<open>xs\<close> and possibly again among the later parameters
  \<open>ys\<close>, the result has a single occurrence of \<open>k\<close>, carrying the value from
  \<open>params\<close>, at the place of the first: what precedes it is what the merge makes of
  \<open>xs\<close>, and what follows it comes from \<open>ys\<close> without its occurrences of \<open>k\<close> and
  from the newly added parameters.
\<close>

theorem appendQueryParams_collapses_duplicates:
  assumes "URL_new H baseUrl = Inr url" and "distinct (map fst params)"
    and "(k, v) \<in> set params"
    and "searchParams url = xs @ (k, v0) # ys" and "k \<notin> fst ` set xs"
  shows "appendQueryParams H baseUrl params =
           Inr (URL_href
             (url\<lparr>searchParams := merged (Object_entries params) (searchParams url),
                  query := Some (urlencoded_serialize
                             (merged (Object_entries params) (searchParams url)))\<rparr>)) \<and>
         merged (Object_entries params) (searchParams url) =
           updated_in_place (Object_entries params) xs @ (k, v) #
             (updated_in_place (Object_entries params)
                (filter (\<lambda>t. fst t \<noteq> k \<and> \<not> (fst t \<in> fst ` set params \<and> fst t \<in> fst ` set xs)) ys)
              @ newly_added (Object_entries params) (searchParams url)) \<and>
         k \<notin> fst ` set (updated_in_place (Object_entries params) xs) \<and>
         k \<notin> fst ` set (updated_in_place (Object_entries params)
                (filter (\<lambda>t. fst t \<noteq> k \<and> \<not> (fst t \<in> fst ` set params \<and> fst t \<in> fst ` set xs)) ys)
              @ newly_added (Object_entries params) (searchParams url))"
proof -
  let ?es = "Object_entries params"
  from assms(2) have d: "distinct (map fst ?es)" by (simp add: distinct_Object_entries)
  from assms(3) have "(k, v) \<in> set ?es" by (simp add: set_Object_entries)
  with d have m: "map_of ?es k = Some v" by simp
  from assms(3) have ne: "params \<noteq> []" by auto
  have 1: "appendQueryParams H baseUrl params =
           Inr (URL_href
             (url\<lparr>searchParams := merged ?es (searchParams url),
                  query := Some (urlencoded_serialize (merged ?es (searchParams url)))\<rparr>))"
    using appendQueryParams_eq [OF assms(1) assms(2)] ne by simp
  have f: "filter (\<lambda>t. \<not> (fst t \<in> fst ` set ?es \<and> fst t \<in> fst ` set xs)) ((k, v0) # ys)
         = (k, v0) # filter (\<lambda>t. \<not> (fst t \<in> fst ` set ?es \<and> fst t \<in> fst ` set xs)) ys"
    using assms(5) by simp
  have 2: "merged ?es (searchParams url) =
           updated_in_place ?es xs @ (k, v) #
             (updated_in_place ?es
                (filter (\<lambda>t. fst t \<noteq> k \<and> \<not> (fst t \<in> fst ` set params \<and> fst t \<in> fst ` set xs)) ys)
              @ newly_added ?es (searchParams url))"
    unfolding merged_def assms(4) updated_in_place_append [of ?es xs] f
    by (simp add: m set_Object_entries conj_commute)
  have 3: "k \<notin> fst ` set (updated_in_place ?es xs)"
    using assms(5) by (simp add: keys_updated_in_place)
  have 4: "k \<notin> fst ` set (updated_in_place ?es
                (filter (\<lambda>t. fst t \<noteq> k \<and> \<not> (fst t \<in> fst ` set params \<and> fst t \<in> fst ` set xs)) ys))"
    unfolding keys_updated_in_place by auto
  have 5: "k \<notin> fst ` set (newly_added ?es (searchParams url))"
    unfolding newly_added_def assms(4) by auto
  from 1 2 3 4 5 show ?thesis by (simp add: image_Un)
qed

theorem appendQueryParams_collapses_duplicates_witness:
  "URL_new example_host ''https://example.com?b=0&a=9&b=2&a=7&c=5'' =
     Inr \<lparr>special = True, prefix = ''https://example.com/'', query = Some ''b=0&a=9&b=2&a=7&c=5'',
          fragment = None,
          searchParams = [(''b'', ''0'')] @ (''a'', ''9'') # [(''b'', ''2''), (''a'', ''7''), (''c'', ''5'')]\<rparr> \<and>
   distinct (map fst [(''d'', ''4''), (''a'', ''1'')]) \<and>
   (''a'', ''1'') \<in> set [(''d'', ''4''), (''a'', ''1'')] \<and>
   ''a'' \<notin> fst ` set [(''b'', ''0'')] \<and>
   appendQueryParams example_host ''https://example.com?b=0&a=9&b=2&a=7&c=5'' [(''d'', ''4''), (''a'', ''1'')]
     = Inr ''https://example.com/?b=0&a=1&b=2&c=5&d=4'' \<and>
   merged (Object_entries [(''d'', ''4''), (''a'', ''1'')])
       [(''b'', ''0''), (''a'', ''9''), (''b'', ''2''), (''a'', ''7''), (''c'', ''5'')]
     = [(''b'', ''0'')] @ (''a'', ''1'') # [(''b'', ''2''), (''c'', ''5''), (''d'', ''4'')]"
proof -
  have m: "merged [(''d'', ''4''), (''a'', ''1'')]
             [(''b'', ''0''), (''a'', ''9''), (''b'', ''2''), (''a'', ''7''), (''c'', ''5'')]
           = [(''b'', ''0''), (''a'', ''1''), (''b'', ''2''), (''c'', ''5''), (''d'', ''4'')]"
    by (simp add: merged_def newly_added_def)
  have s: "urlencoded_serialize [(''b'', ''0''), (''a'', ''1''), (''b'', ''2''), (''c'', ''5''), (''d'', ''4'')]
           = ''b=0&a=1&b=2&c=5&d=4''"
    by (simp add: urlencoded_encode_def urlencoded_byte_def is_ascii_alphanumeric_def in_range_def)
  have u: "URL_new example_host ''https://example.com?b=0&a=9&b=2&a=7&c=5'' =
     Inr \<lparr>special = True, prefix = ''https://example.com/'', query = Some ''b=0&a=9&b=2&a=7&c=5'',
          fragment = None,
          searchParams = [(''b'', ''0'')] @ (''a'', ''9'') # [(''b'', ''2''), (''a'', ''7''), (''c'', ''5'')]\<rparr>"
    by (simp add: URL_new_example_dup)
  have "appendQueryParams example_host ''https://example.com?b=0&a=9&b=2&a=7&c=5'' [(''d'', ''4''), (''a'', ''1'')]
     = Inr ''https://example.com/?b=0&a=1&b=2&c=5&d=4''"
    using appendQueryParams_collapses_duplicates [OF u, of "[(''d'', ''4''), (''a'', ''1'')]" "''a''" "''1''" "[(''b'', ''0'')]" "''9''"
                  "[(''b'', ''2''), (''a'', ''7''), (''c'', ''5'')]"]
    by (simp add: entries_example m s URL_href_def del: urlencoded_serialize.simps)
  with u show ?thesis by (simp add: entries_example m)
qed

subsection \<open>Decoding is idempotent\<close>

text \<open>
  Every decoded string is text: the decoder emits well-formed sequences only, and it keeps
  a well-formed sequence as it is.
\<close>

lemma utf8_decode_replacement: "utf8_decode (replacement @ t) = replacement @ utf8_decode t"
  by (simp add: replacement_def in_range_def)

lemma utf8_two:
  "in_range 0xC2 0xDF b \<Longrightarrow> in_range 0x80 0xBF c \<Longrightarrow>
   utf8_decode (b # c # t) = b # c # utf8_decode t"
  by (simp add: in_range_def)

lemma utf8_three:
  "in_range 0xE0 0xEF b \<Longrightarrow>
   in_range (if of_char b = (0xE0 :: nat) then 0xA0 else 0x80)
            (if of_char b = (0xED :: nat) then 0x9F else 0xBF) c \<Longrightarrow>
   in_range 0x80 0xBF d \<Longrightarrow>
   utf8_decode (b # c # d # t) = b # c # d # utf8_decode t"
  by (simp add: in_range_def)

lemma utf8_four:
  "in_range 0xF0 0xF4 b \<Longrightarrow>
   in_range (if of_char b = (0xF0 :: nat) then 0x90 else 0x80)
            (if of_char b = (0xF4 :: nat) then 0x8F else 0xBF) c \<Longrightarrow>
   in_range 0x80 0xBF d \<Longrightarrow> in_range 0x80 0xBF e \<Longrightarrow>
   utf8_decode (b # c # d # e # t) = b # c # d # e # utf8_decode t"
  by (simp add: in_range_def)

lemma utf8_decode_chunk:
  "s \<noteq> [] \<Longrightarrow>
   \<exists>c r. utf8_decode s = c @ utf8_decode r \<and> length r < length s \<and>
         (\<forall>t. utf8_decode (c @ t) = c @ utf8_decode t)"
proof (cases s)
  case Nil
  assume "s \<noteq> []"
  with Nil show ?thesis by simp
next
  case (Cons b bs)
  let ?P = "\<lambda>c r. utf8_decode s = c @ utf8_decode r \<and> length r < length s \<and>
         (\<forall>t. utf8_decode (c @ t) = c @ utf8_decode t)"
  have rep: "?P replacement r" if "utf8_decode s = replacement @ utf8_decode r" "length r < length s" for r
    using that by (simp add: utf8_decode_replacement)
  have rep_end: "?P replacement []" if "utf8_decode s = replacement"
    using that Cons by (simp add: utf8_decode_replacement)
  consider (ascii) "in_range 0x00 0x7F b"
    | (two) "\<not> in_range 0x00 0x7F b" "in_range 0xC2 0xDF b"
    | (three) "\<not> in_range 0x00 0x7F b" "\<not> in_range 0xC2 0xDF b" "in_range 0xE0 0xEF b"
    | (four) "\<not> in_range 0x00 0x7F b" "\<not> in_range 0xC2 0xDF b" "\<not> in_range 0xE0 0xEF b" "in_range 0xF0 0xF4 b"
    | (other) "\<not> in_range 0x00 0x7F b" "\<not> in_range 0xC2 0xDF b" "\<not> in_range 0xE0 0xEF b" "\<not> in_range 0xF0 0xF4 b"
    by blast
  then show ?thesis
  proof cases
    case ascii
    then have "?P [b] bs" using Cons by simp
    then show ?thesis by blast
  next
    case two
    show ?thesis
    proof (cases bs)
      case Nil
      with two Cons have "utf8_decode s = replacement" by simp
      from rep_end [OF this] show ?thesis by blast
    next
      case c: (Cons c cs)
      show ?thesis
      proof (cases "in_range 0x80 0xBF c")
        case True
        with two Cons c have "?P [b, c] cs" by (simp add: utf8_two)
        then show ?thesis by blast
      next
        case False
        with two Cons c have "utf8_decode s = replacement @ utf8_decode bs" by simp
        from rep [OF this] Cons have "?P replacement bs" by simp
        then show ?thesis by blast
      qed
    qed
  next
    case three
    let ?ok = "\<lambda>c. in_range (if of_char b = (0xE0 :: nat) then 0xA0 else 0x80)
            (if of_char b = (0xED :: nat) then 0x9F else 0xBF) c"
    show ?thesis
    proof (cases bs)
      case Nil
      with three Cons have "utf8_decode s = replacement" by simp
      from rep_end [OF this] show ?thesis by blast
    next
      case c: (Cons c cs)
      show ?thesis
      proof (cases "?ok c")
        case False
        with three Cons c have "utf8_decode s = replacement @ utf8_decode bs" by simp
        from rep [OF this] Cons have "?P replacement bs" by simp
        then show ?thesis by blast
      next
        case okc: True
        show ?thesis
        proof (cases cs)
          case Nil
          with three Cons c okc have "utf8_decode s = replacement" by simp
          from rep_end [OF this] show ?thesis by blast
        next
          case d: (Cons d ds)
          show ?thesis
          proof (cases "in_range 0x80 0xBF d")
            case True
            with three Cons c d okc have "?P [b, c, d] ds" by (simp add: utf8_three del: utf8_decode.simps)
            then show ?thesis by blast
          next
            case False
            with three Cons c d okc have "utf8_decode s = replacement @ utf8_decode cs" by simp
            from rep [OF this] Cons c have "?P replacement cs" by simp
            then show ?thesis by blast
          qed
        qed
      qed
    qed
  next
    case four
    let ?ok = "\<lambda>c. in_range (if of_char b = (0xF0 :: nat) then 0x90 else 0x80)
            (if of_char b = (0xF4 :: nat) then 0x8F else 0xBF) c"
    show ?thesis
    proof (cases bs)
      case Nil
      with four Cons have "utf8_decode s = replacement" by simp
      from rep_end [OF this] show ?thesis by blast
    next
      case c: (Cons c cs)
      show ?thesis
      proof (cases "?ok c")
        case False
        with four Cons c have "utf8_decode s = replacement @ utf8_decode bs" by simp
        from rep [OF this] Cons have "?P replacement bs" by simp
        then show ?thesis by blast
      next
        case okc: True
        show ?thesis
        proof (cases cs)
          case Nil
          with four Cons c okc have "utf8_decode s = replacement" by simp
          from rep_end [OF this] show ?thesis by blast
        next
          case d: (Cons d ds)
          show ?thesis
          proof (cases "in_range 0x80 0xBF d")
            case False
            with four Cons c d okc have "utf8_decode s = replacement @ utf8_decode cs" by simp
            from rep [OF this] Cons c have "?P replacement cs" by simp
            then show ?thesis by blast
          next
            case okd: True
            show ?thesis
            proof (cases ds)
              case Nil
              with four Cons c d okc okd have "utf8_decode s = replacement" by simp
              from rep_end [OF this] show ?thesis by blast
            next
              case e: (Cons e es)
              show ?thesis
              proof (cases "in_range 0x80 0xBF e")
                case True
                with four Cons c d e okc okd have "?P [b, c, d, e] es"
                  by (simp add: utf8_four del: utf8_decode.simps)
                then show ?thesis by blast
              next
                case False
                with four Cons c d e okc okd have "utf8_decode s = replacement @ utf8_decode ds" by simp
                from rep [OF this] Cons c d have "?P replacement ds" by simp
                then show ?thesis by blast
              qed
            qed
          qed
        qed
      qed
    qed
  next
    case other
    with Cons have "utf8_decode s = replacement @ utf8_decode bs" by simp
    from rep [OF this] Cons have "?P replacement bs" by simp
    then show ?thesis by blast
  qed
qed

lemma utf8_decode_idem: "utf8_decode (utf8_decode s) = utf8_decode s"
proof (induction s rule: length_induct)
  case (1 s)
  show ?case
  proof (cases "s = []")
    case True
    then show ?thesis by simp
  next
    case False
    from utf8_decode_chunk [OF False] obtain c r where
      s: "utf8_decode s = c @ utf8_decode r" and l: "length r < length s"
      and c: "\<And>t. utf8_decode (c @ t) = c @ utf8_decode t"
      by blast
    from 1 l have "utf8_decode (utf8_decode r) = utf8_decode r" by blast
    with s c show ?thesis by simp
  qed
qed

lemma is_text_utf8_decode: "is_text (utf8_decode s)"
  by (simp add: is_text_def utf8_decode_idem)

subsection \<open>Serializing and parsing again\<close>

lemma below_16_cases:
  "(n::nat) < 16 \<Longrightarrow> n \<in> {0, 1, 2, 3, 4, 5, 6, 7, 8, 9, 10, 11, 12, 13, 14, 15}"
  by simp arith

lemma of_char_nibbles:
  "(of_char c :: nat) div 16 < 16" "(of_char c :: nat) mod 16 < 16"
proof -
  have "(of_char c :: nat) < 256" by simp
  then show "(of_char c :: nat) div 16 < 16" by arith
  show "(of_char c :: nat) mod 16 < 16" by simp
qed

lemma hex_digit_cases:
  "n < 16 \<Longrightarrow> hex_digit n \<in> set ''0123456789ABCDEF''"
  using below_16_cases [of n] by (auto simp: hex_digit_def)

lemma hex_value_hex_digit: "n < 16 \<Longrightarrow> hex_value (hex_digit n) = n"
  using below_16_cases [of n] by (auto simp: hex_digit_def hex_value_def)

lemma is_hex_hex_digit: "n < 16 \<Longrightarrow> is_ascii_hex_digit (hex_digit n)"
  using hex_digit_cases [of n] by (auto simp: is_ascii_hex_digit_def in_range_def)

lemma percent_decode_encode_byte:
  "percent_decode (percent_encode_byte c @ t) = c # percent_decode t"
proof -
  note lt = of_char_nibbles [of c]
  have "char_of (16 * ((of_char c :: nat) div 16) + (of_char c :: nat) mod 16) = c"
    by simp
  with lt show ?thesis
    by (simp add: percent_encode_byte_def hex_value_hex_digit is_hex_hex_digit)
qed

lemma urlencoded_byte_chars:
  "x \<in> set (urlencoded_byte c) \<Longrightarrow>
   x = CHR ''+'' \<or> x = CHR ''%'' \<or> is_ascii_alphanumeric x \<or> x \<in> set ''*-._''"
proof -
  note lt = of_char_nibbles [of c]
  have h: "is_ascii_alphanumeric (hex_digit n)" if "n < 16" for n
    using hex_digit_cases [OF that] by (auto simp: is_ascii_alphanumeric_def in_range_def)
  assume "x \<in> set (urlencoded_byte c)"
  then show ?thesis
    using h [OF lt(1)] h [OF lt(2)]
    by (auto simp: urlencoded_byte_def percent_encode_byte_def split: if_splits)
qed

lemma urlencoded_encode_chars:
  "x \<in> set (urlencoded_encode s) \<Longrightarrow>
   x = CHR ''+'' \<or> x = CHR ''%'' \<or> is_ascii_alphanumeric x \<or> x \<in> set ''*-._''"
  by (auto simp: urlencoded_encode_def dest: urlencoded_byte_chars)

lemma urlencoded_encode_no_delims:
  "CHR ''&'' \<notin> set (urlencoded_encode s)" "CHR ''='' \<notin> set (urlencoded_encode s)"
  using urlencoded_encode_chars [of "CHR ''&''" s] urlencoded_encode_chars [of "CHR ''=''" s]
  by (auto simp: is_ascii_alphanumeric_def in_range_def)

lemma decode_encode_byte:
  "percent_decode (plus_to_space (urlencoded_byte c @ t)) = c # percent_decode (plus_to_space t)"
proof -
  note lt = of_char_nibbles [of c]
  have np: "hex_digit n \<noteq> CHR ''+''" if "n < 16" for n
    using hex_digit_cases [OF that] by auto
  have pe: "plus_to_space (percent_encode_byte c @ t) = percent_encode_byte c @ plus_to_space t"
    using np [OF lt(1)] np [OF lt(2)] by (simp add: plus_to_space_def percent_encode_byte_def)
  show ?thesis
  proof (cases "c = CHR '' ''")
    case True
    then show ?thesis by (simp add: urlencoded_byte_def plus_to_space_def)
  next
    case False
    show ?thesis
    proof (cases "is_ascii_alphanumeric c \<or> c \<in> set ''*-._''")
      case True
      then have "c \<noteq> CHR ''+''" "c \<noteq> CHR ''%''"
        by (auto simp: is_ascii_alphanumeric_def in_range_def)
      with True False show ?thesis by (simp add: urlencoded_byte_def plus_to_space_def)
    next
      case n: False
      with False have "urlencoded_byte c = percent_encode_byte c"
        by (simp add: urlencoded_byte_def)
      then show ?thesis by (simp add: pe percent_decode_encode_byte)
    qed
  qed
qed

lemma percent_decode_urlencoded_encode:
  "percent_decode (plus_to_space (urlencoded_encode s)) = s"
proof (induction s)
  case Nil
  show ?case by (simp add: urlencoded_encode_def plus_to_space_def)
next
  case (Cons c s)
  have "urlencoded_encode (c # s) = urlencoded_byte c @ urlencoded_encode s"
    by (simp add: urlencoded_encode_def)
  with Cons show ?case by (simp add: decode_encode_byte)
qed

lemma urlencoded_decode_encode: "is_text s \<Longrightarrow> urlencoded_decode (urlencoded_encode s) = s"
  by (simp add: urlencoded_decode_def percent_decode_urlencoded_encode is_text_def)

lemma split_on_no_delim: "d \<notin> set a \<Longrightarrow> split_on d a = [a]"
  by (induction a) auto

lemma split_on_append: "d \<notin> set a \<Longrightarrow> split_on d (a @ d # b) = a # split_on d b"
  by (induction a) auto

lemma urlencoded_serialize_Cons:
  "urlencoded_serialize ((n, v) # ts) =
     urlencoded_encode n @ CHR ''='' # urlencoded_encode v
       @ (if ts = [] then [] else CHR ''&'' # urlencoded_serialize ts)"
  by (cases ts) auto

lemma split_urlencoded_serialize:
  "ts \<noteq> [] \<Longrightarrow>
   split_on CHR ''&'' (urlencoded_serialize ts)
     = map (\<lambda>(n, v). urlencoded_encode n @ CHR ''='' # urlencoded_encode v) ts"
proof (induction ts)
  case Nil
  then show ?case by simp
next
  case (Cons t ts)
  obtain n v where t: "t = (n, v)" by (cases t)
  have nd: "CHR ''&'' \<notin> set (urlencoded_encode n @ CHR ''='' # urlencoded_encode v)"
    by (simp add: urlencoded_encode_no_delims)
  show ?case
  proof (cases "ts = []")
    case True
    with t nd show ?thesis by (simp add: split_on_no_delim del: split_on.simps)
  next
    case False
    have "split_on CHR ''&'' (urlencoded_serialize (t # ts))
        = split_on CHR ''&'' ((urlencoded_encode n @ CHR ''='' # urlencoded_encode v) @ CHR ''&'' # urlencoded_serialize ts)"
      using False t by (simp add: urlencoded_serialize_Cons del: urlencoded_serialize.simps)
    also have "\<dots> = (urlencoded_encode n @ CHR ''='' # urlencoded_encode v) # split_on CHR ''&'' (urlencoded_serialize ts)"
      by (rule split_on_append [OF nd])
    finally show ?thesis using Cons.IH [OF False] t by simp
  qed
qed

lemma takeWhile_delim: "d \<notin> set a \<Longrightarrow> takeWhile (\<lambda>c. c \<noteq> d) (a @ d # b) = a"
  by (induction a) auto

lemma dropWhile_delim: "d \<notin> set a \<Longrightarrow> dropWhile (\<lambda>c. c \<noteq> d) (a @ d # b) = d # b"
  by (induction a) auto

lemma takeWhile_no_delim: "d \<notin> set a \<Longrightarrow> takeWhile (\<lambda>c. c \<noteq> d) a = a"
  by (induction a) auto

lemma dropWhile_no_delim: "d \<notin> set a \<Longrightarrow> dropWhile (\<lambda>c. c \<noteq> d) a = []"
  by (induction a) auto

lemma parse_pair_encoded:
  "is_text n \<Longrightarrow> is_text v \<Longrightarrow>
   parse_pair (urlencoded_encode n @ CHR ''='' # urlencoded_encode v) = (n, v)"
proof -
  assume t: "is_text n" "is_text v"
  have "takeWhile (\<lambda>c. c \<noteq> CHR ''='') (urlencoded_encode n @ CHR ''='' # urlencoded_encode v)
          = urlencoded_encode n"
    using urlencoded_encode_no_delims(2) [of n] by (rule takeWhile_delim)
  with t show ?thesis by (simp add: parse_pair_def urlencoded_decode_encode)
qed

lemma urlencoded_parse_serialize:
  assumes "\<forall>(n, v) \<in> set ts. is_text n \<and> is_text v"
  shows "urlencoded_parse (urlencoded_serialize ts) = ts"
proof (cases "ts = []")
  case True
  then show ?thesis by (simp add: urlencoded_parse_def)
next
  case False
  have "filter (\<lambda>s. s \<noteq> []) (map (\<lambda>(n, v). urlencoded_encode n @ CHR ''='' # urlencoded_encode v) ts)
      = map (\<lambda>(n, v). urlencoded_encode n @ CHR ''='' # urlencoded_encode v) ts"
    by (auto simp: filter_id_conv)
  moreover have "map parse_pair (map (\<lambda>(n, v). urlencoded_encode n @ CHR ''='' # urlencoded_encode v) ts) = ts"
    using assms by (induction ts) (auto simp: parse_pair_encoded)
  ultimately show ?thesis
    by (simp add: urlencoded_parse_def split_urlencoded_serialize [OF False])
qed

lemma urlencoded_parse_is_text:
  "(n, v) \<in> set (urlencoded_parse s) \<Longrightarrow> is_text n \<and> is_text v"
  by (auto simp: urlencoded_parse_def parse_pair_def urlencoded_decode_def is_text_utf8_decode Let_def)

lemma percent_encode_id: "(\<forall>c \<in> set s. \<not> S c) \<Longrightarrow> percent_encode S s = s"
  by (induction s) (simp_all add: percent_encode_def)

lemma percent_encode_chars:
  assumes "\<not> S CHR ''%''" and "\<And>x. x \<in> set ''0123456789ABCDEF'' \<Longrightarrow> \<not> S x"
    and "x \<in> set (percent_encode S s)"
  shows "\<not> S x"
proof -
  have "\<not> S (hex_digit n)" if "n < 16" for n
    using assms(2) [OF hex_digit_cases [OF that]] .
  with assms(1,3) of_char_nibbles show ?thesis
    by (auto simp: percent_encode_def percent_encode_byte_def split: if_splits)
qed

lemma query_set_hex:
  "\<not> query_set CHR ''%''" "x \<in> set ''0123456789ABCDEF'' \<Longrightarrow> \<not> query_set x"
  "\<not> special_query_set CHR ''%''" "x \<in> set ''0123456789ABCDEF'' \<Longrightarrow> \<not> special_query_set x"
  "\<not> fragment_set CHR ''%''" "x \<in> set ''0123456789ABCDEF'' \<Longrightarrow> \<not> fragment_set x"
  by (auto simp: query_set_def special_query_set_def fragment_set_def c0_control_set_def in_range_def)

lemma percent_encode_query_chars:
  "x \<in> set (percent_encode (if sp then special_query_set else query_set) s) \<Longrightarrow>
   \<not> (if sp then special_query_set else query_set) x"
  by (cases sp) (auto dest: percent_encode_chars [rotated 2] simp: query_set_hex)

lemma percent_encode_set_chars:
  "x \<in> set (percent_encode query_set s) \<Longrightarrow> \<not> query_set x"
  "x \<in> set (percent_encode special_query_set s) \<Longrightarrow> \<not> special_query_set x"
  using percent_encode_query_chars [of x False s] percent_encode_query_chars [of x True s]
  by simp_all

lemma percent_encode_fragment_chars:
  "x \<in> set (percent_encode fragment_set s) \<Longrightarrow> \<not> fragment_set x"
  by (auto dest: percent_encode_chars [rotated 2] simp: query_set_hex)

lemma urlencoded_serialize_chars:
  "x \<in> set (urlencoded_serialize ts) \<Longrightarrow>
   x = CHR ''='' \<or> x = CHR ''&'' \<or> x = CHR ''+'' \<or> x = CHR ''%'' \<or> is_ascii_alphanumeric x
     \<or> x \<in> set ''*-._''"
  by (induction ts rule: urlencoded_serialize.induct) (auto dest: urlencoded_encode_chars)

lemma urlencoded_serialize_not_special_query:
  "x \<in> set (urlencoded_serialize ts) \<Longrightarrow> \<not> special_query_set x"
  by (drule urlencoded_serialize_chars)
     (auto simp: special_query_set_def query_set_def c0_control_set_def in_range_def
        is_ascii_alphanumeric_def)

lemma strip_c0_or_space_id:
  "s \<noteq> [] \<Longrightarrow> \<not> is_c0_or_space (hd s) \<Longrightarrow> \<not> is_c0_or_space (last s) \<Longrightarrow>
   strip_c0_or_space s = s"
proof -
  assume a: "s \<noteq> []" "\<not> is_c0_or_space (hd s)" "\<not> is_c0_or_space (last s)"
  then have 1: "dropWhile is_c0_or_space s = s" by (cases s) simp_all
  from a have "rev s \<noteq> []" "\<not> is_c0_or_space (hd (rev s))" by (simp_all add: hd_rev)
  then have "dropWhile is_c0_or_space (rev s) = rev s" by (cases "rev s") simp_all
  with 1 show ?thesis by (simp add: strip_c0_or_space_def)
qed

lemma space_char: "(of_char c :: nat) = 32 \<Longrightarrow> c = CHR '' ''"
proof -
  assume "(of_char c :: nat) = 32"
  then have "(of_char c :: nat) = of_char CHR '' ''" by simp
  then show ?thesis by (simp only: of_char_eq_iff)
qed

lemma c0_or_space_in_sets:
  assumes "is_c0_or_space c"
  shows "query_set c" and "fragment_set c"
proof -
  from assms have "(of_char c :: nat) \<le> 31 \<or> (of_char c :: nat) = 32"
    by (auto simp: is_c0_or_space_def in_range_def)
  then have "c0_control_set c \<or> c = CHR '' ''"
    by (auto simp: c0_control_set_def in_range_def dest: space_char)
  then show "query_set c" and "fragment_set c"
    by (auto simp: query_set_def fragment_set_def)
qed

lemma tab_or_newline_c0: "is_tab_or_newline c \<Longrightarrow> is_c0_or_space c"
  by (auto simp: is_tab_or_newline_def is_c0_or_space_def in_range_def)

lemma url_parts_href:
  assumes p: "clean_prefix p"
    and q: "\<And>t c. qo = Some t \<Longrightarrow> c \<in> set t \<Longrightarrow> \<not> query_set c"
    and f: "\<And>t c. fo = Some t \<Longrightarrow> c \<in> set t \<Longrightarrow> \<not> fragment_set c"
  shows "url_parts (p @ (case qo of None \<Rightarrow> [] | Some t \<Rightarrow> CHR ''?'' # t)
                      @ (case fo of None \<Rightarrow> [] | Some t \<Rightarrow> CHR ''#'' # t)) = (p, qo, fo)"
proof -
  let ?Q = "case qo of None \<Rightarrow> [] | Some t \<Rightarrow> CHR ''?'' # t"
  let ?F = "case fo of None \<Rightarrow> [] | Some t \<Rightarrow> CHR ''#'' # t"
  let ?s = "p @ ?Q @ ?F"
  have marks: "\<not> is_c0_or_space CHR ''?''" "\<not> is_c0_or_space CHR ''#''"
    by (simp_all add: is_c0_or_space_def in_range_def)
  have Q: "\<not> is_c0_or_space c \<and> c \<noteq> CHR ''#''" if "c \<in> set ?Q" for c
  proof (cases qo)
    case None
    with that show ?thesis by simp
  next
    case (Some t)
    with that have "c = CHR ''?'' \<or> c \<in> set t" by auto
    then show ?thesis
    proof
      assume "c = CHR ''?''"
      with marks show ?thesis by simp
    next
      assume "c \<in> set t"
      from q [OF Some this] show ?thesis
        by (auto dest: c0_or_space_in_sets(1) simp: query_set_def)
    qed
  qed
  have F: "\<not> is_c0_or_space c" if "c \<in> set ?F" for c
  proof (cases fo)
    case None
    with that show ?thesis by simp
  next
    case (Some t)
    with that have "c = CHR ''#'' \<or> c \<in> set t" by auto
    then show ?thesis
    proof
      assume "c = CHR ''#''"
      with marks show ?thesis by simp
    next
      assume "c \<in> set t"
      from f [OF Some this] show ?thesis by (auto dest: c0_or_space_in_sets(2))
    qed
  qed
  from p have pne: "p \<noteq> []" and hd: "\<not> is_c0_or_space (hd p)" and lst: "\<not> is_c0_or_space (last p)"
    and pc: "\<And>c. c \<in> set p \<Longrightarrow> c \<noteq> CHR ''?'' \<and> c \<noteq> CHR ''#'' \<and> \<not> is_tab_or_newline c"
    by (auto simp: clean_prefix_def list_all_iff)
  have last: "\<not> is_c0_or_space (last ?s)"
  proof (cases "?Q @ ?F = []")
    case True
    with lst show ?thesis by simp
  next
    case False
    then have "last ?s = last (?Q @ ?F)" by (rule last_appendR)
    moreover from False have "last (?Q @ ?F) \<in> set (?Q @ ?F)" by (rule last_in_set)
    ultimately show ?thesis using Q F by (metis Un_iff set_append)
  qed
  from pne hd have "?s \<noteq> []" "\<not> is_c0_or_space (hd ?s)" by simp_all
  from strip_c0_or_space_id [OF this last] have 1: "strip_c0_or_space ?s = ?s" .
  have "\<not> is_tab_or_newline c" if "c \<in> set ?s" for c
    using that pc Q F tab_or_newline_c0 by (metis Un_iff set_append)
  then have 2: "filter (\<lambda>c. \<not> is_tab_or_newline c) ?s = ?s"
    by (simp only: filter_id_conv) blast
  have nh: "CHR ''#'' \<notin> set (p @ ?Q)" using pc Q by auto
  have 3: "split_first CHR ''#'' ?s = (p @ ?Q, fo)"
  proof (cases fo)
    case None
    with nh show ?thesis
      by (simp add: split_first_def takeWhile_no_delim dropWhile_no_delim del: set_append)
  next
    case (Some t)
    then have e: "?s = (p @ ?Q) @ CHR ''#'' # t" by simp
    have tw: "takeWhile (\<lambda>c. c \<noteq> CHR ''#'') ((p @ ?Q) @ CHR ''#'' # t) = p @ ?Q"
      by (rule takeWhile_delim [OF nh])
    have dw: "dropWhile (\<lambda>c. c \<noteq> CHR ''#'') ((p @ ?Q) @ CHR ''#'' # t) = CHR ''#'' # t"
      by (rule dropWhile_delim [OF nh])
    show ?thesis
      unfolding split_first_def e tw dw using Some by simp
  qed
  have nq: "CHR ''?'' \<notin> set p" using pc by auto
  have 4: "split_first CHR ''?'' (p @ ?Q) = (p, qo)"
  proof (cases qo)
    case None
    with nq show ?thesis by (simp add: split_first_def takeWhile_no_delim dropWhile_no_delim)
  next
    case (Some t)
    with nq show ?thesis by (simp add: split_first_def takeWhile_delim dropWhile_delim)
  qed
  show ?thesis
    unfolding url_parts_def 1 2 Let_def 3 by (simp add: 4)
qed

lemma URL_new_Inr:
  assumes "URL_new H s = Inr u"
  obtains pre qry frag where "H pre = Some (special u, prefix u)"
    and "query u = map_option (percent_encode (if special u then special_query_set else query_set)) qry"
    and "fragment u = map_option (percent_encode fragment_set) frag"
    and "searchParams u = urlencoded_parse (case query u of None \<Rightarrow> [] | Some t \<Rightarrow> t)"
    and "u = \<lparr>special = special u, prefix = prefix u, query = query u, fragment = fragment u,
               searchParams = searchParams u\<rparr>"
proof -
  obtain pre qry frag where p: "url_parts s = (pre, qry, frag)" by (cases "url_parts s")
  with assms obtain sp p where h: "H pre = Some (sp, p)"
    by (cases "H pre") (auto simp: URL_new_def)
  from assms p h have
    "u = \<lparr>special = sp, prefix = p,
          query = map_option (percent_encode (if sp then special_query_set else query_set)) qry,
          fragment = map_option (percent_encode fragment_set) frag,
          searchParams = urlencoded_parse
            (case map_option (percent_encode (if sp then special_query_set else query_set)) qry of
               None \<Rightarrow> [] | Some t \<Rightarrow> t)\<rparr>"
    by (simp add: URL_new_def Let_def)
  with h that [of pre qry frag] show thesis by simp
qed

lemma URL_new_eq:
  assumes "url_parts s = (pre, qry, frag)" and "H pre = Some (sp, p)"
    and "Q = map_option (percent_encode (if sp then special_query_set else query_set)) qry"
    and "F = map_option (percent_encode fragment_set) frag"
  shows "URL_new H s =
     Inr \<lparr>special = sp, prefix = p, query = Q, fragment = F,
          searchParams = urlencoded_parse (case Q of None \<Rightarrow> [] | Some t \<Rightarrow> t)\<rparr>"
  by (simp add: URL_new_def assms Let_def)

lemma URL_new_href:
  assumes "reparses H" and "H pre = Some (sp, p)"
    and q: "\<forall>t c. qo = Some t \<longrightarrow> c \<in> set t \<longrightarrow> \<not> (if sp then special_query_set else query_set) c"
    and f: "\<forall>t c. fo = Some t \<longrightarrow> c \<in> set t \<longrightarrow> \<not> fragment_set c"
  shows "URL_new H (URL_href \<lparr>special = sp, prefix = p, query = qo, fragment = fo, searchParams = l\<rparr>)
       = Inr \<lparr>special = sp, prefix = p, query = qo, fragment = fo,
              searchParams = urlencoded_parse (case qo of None \<Rightarrow> [] | Some t \<Rightarrow> t)\<rparr>"
proof -
  from assms(1,2) have c: "clean_prefix p" and h: "H p = Some (sp, p)"
    by (auto simp: reparses_def)
  have q': "\<not> query_set c" if "qo = Some t" "c \<in> set t" for t c
    using q that by (cases sp) (auto simp: special_query_set_def)
  have f': "\<not> fragment_set c" if "fo = Some t" "c \<in> set t" for t c
    using f that by blast
  have "url_parts (p @ (case qo of None \<Rightarrow> [] | Some t \<Rightarrow> CHR ''?'' # t)
                      @ (case fo of None \<Rightarrow> [] | Some t \<Rightarrow> CHR ''#'' # t)) = (p, qo, fo)"
    by (rule url_parts_href [OF c]) (erule (1) q', erule (1) f')
  then have parts:
    "url_parts (URL_href \<lparr>special = sp, prefix = p, query = qo, fragment = fo, searchParams = l\<rparr>)
      = (p, qo, fo)"
    by (simp add: URL_href_def)
  have qe: "qo = map_option (percent_encode (if sp then special_query_set else query_set)) qo"
  proof (cases qo)
    case None
    then show ?thesis by simp
  next
    case (Some t)
    have "percent_encode (if sp then special_query_set else query_set) t = t"
      by (rule percent_encode_id) (use q Some in blast)
    with Some show ?thesis by simp
  qed
  have fe: "fo = map_option (percent_encode fragment_set) fo"
  proof (cases fo)
    case None
    then show ?thesis by simp
  next
    case (Some t)
    have "percent_encode fragment_set t = t"
      by (rule percent_encode_id) (use f Some in blast)
    with Some show ?thesis by simp
  qed
  show ?thesis
    by (rule URL_new_eq [where H = H and pre = p and sp = sp and p = p and qry = qo
          and frag = fo and Q = qo and F = fo, OF parts h qe fe])
qed

lemma URL_new_reparse:
  assumes "reparses H" and "URL_new H s = Inr u"
  shows "URL_new H (URL_href u) = Inr u"
proof -
  from assms(2) obtain pre qry frag where h: "H pre = Some (special u, prefix u)"
    and q: "query u = map_option (percent_encode (if special u then special_query_set else query_set)) qry"
    and f: "fragment u = map_option (percent_encode fragment_set) frag"
    and l: "searchParams u = urlencoded_parse (case query u of None \<Rightarrow> [] | Some t \<Rightarrow> t)"
    and u: "u = \<lparr>special = special u, prefix = prefix u, query = query u, fragment = fragment u,
               searchParams = searchParams u\<rparr>"
    by (rule URL_new_Inr)
  have q': "\<forall>t c. query u = Some t \<longrightarrow> c \<in> set t \<longrightarrow>
      \<not> (if special u then special_query_set else query_set) c"
    using q by (cases qry) (auto dest: percent_encode_set_chars)
  have f': "\<forall>t c. fragment u = Some t \<longrightarrow> c \<in> set t \<longrightarrow> \<not> fragment_set c"
    using f by (cases frag) (auto dest: percent_encode_fragment_chars)
  have "URL_new H (URL_href \<lparr>special = special u, prefix = prefix u, query = query u,
           fragment = fragment u, searchParams = searchParams u\<rparr>)
       = Inr \<lparr>special = special u, prefix = prefix u, query = query u, fragment = fragment u,
              searchParams = urlencoded_parse (case query u of None \<Rightarrow> [] | Some t \<Rightarrow> t)\<rparr>"
    by (rule URL_new_href [OF assms(1) h q' f'])
  moreover have e1: "\<lparr>special = special u, prefix = prefix u, query = query u,
      fragment = fragment u, searchParams = searchParams u\<rparr> = u"
    by (rule u [symmetric])
  moreover have "\<lparr>special = special u, prefix = prefix u, query = query u, fragment = fragment u,
      searchParams = urlencoded_parse (case query u of None \<Rightarrow> [] | Some t \<Rightarrow> t)\<rparr> = u"
    unfolding l [symmetric] by (rule e1)
  ultimately show ?thesis by simp
qed

lemma URL_new_reparse_merged:
  assumes "reparses H" and "URL_new H s = Inr u"
    and t: "\<forall>(n, v) \<in> set m. is_text n \<and> is_text v"
  shows "URL_new H (URL_href (u\<lparr>searchParams := m, query := Some (urlencoded_serialize m)\<rparr>))
       = Inr (u\<lparr>searchParams := m, query := Some (urlencoded_serialize m)\<rparr>)"
proof -
  from assms(2) obtain pre qry frag where h: "H pre = Some (special u, prefix u)"
    and f: "fragment u = map_option (percent_encode fragment_set) frag"
    and u: "u = \<lparr>special = special u, prefix = prefix u, query = query u, fragment = fragment u,
               searchParams = searchParams u\<rparr>"
    by (rule URL_new_Inr)
  have q': "\<forall>t c. Some (urlencoded_serialize m) = Some t \<longrightarrow> c \<in> set t \<longrightarrow>
      \<not> (if special u then special_query_set else query_set) c"
    using urlencoded_serialize_not_special_query [of _ m]
    by (cases "special u") (auto simp: special_query_set_def)
  have f': "\<forall>t c. fragment u = Some t \<longrightarrow> c \<in> set t \<longrightarrow> \<not> fragment_set c"
    using f by (cases frag) (auto dest: percent_encode_fragment_chars)
  have e: "u\<lparr>searchParams := m, query := Some (urlencoded_serialize m)\<rparr>
        = \<lparr>special = special u, prefix = prefix u, query = Some (urlencoded_serialize m),
           fragment = fragment u, searchParams = m\<rparr>"
    by (subst u) simp
  have "URL_new H (URL_href \<lparr>special = special u, prefix = prefix u,
           query = Some (urlencoded_serialize m), fragment = fragment u, searchParams = m\<rparr>)
       = Inr \<lparr>special = special u, prefix = prefix u, query = Some (urlencoded_serialize m),
              fragment = fragment u,
              searchParams = urlencoded_parse
                (case Some (urlencoded_serialize m) of None \<Rightarrow> [] | Some t \<Rightarrow> t)\<rparr>"
    by (rule URL_new_href [OF assms(1) h q' f'])
  then show ?thesis
    unfolding e by (simp add: urlencoded_parse_serialize [OF t])
qed

lemma list_set_same: "filter (\<lambda>t. fst t = k) ts = [(k, v)] \<Longrightarrow> list_set ts k v = ts"
proof (induction ts)
  case Nil
  then show ?case by simp
next
  case (Cons t ts)
  obtain n x where t: "t = (n, x)" by (cases t)
  show ?case
  proof (cases "n = k")
    case True
    with Cons.prems t have "x = v" and "filter (\<lambda>t. fst t = k) ts = []" by simp_all
    then have "filter (\<lambda>t. fst t \<noteq> k) ts = ts"
      by (simp add: filter_empty_conv filter_id_conv)
    with True t \<open>x = v\<close> show ?thesis by simp
  next
    case False
    with Cons t show ?thesis by simp
  qed
qed

lemma foldl_list_set_same:
  "(\<forall>(k, v) \<in> set es. filter (\<lambda>t. fst t = k) ts = [(k, v)]) \<Longrightarrow>
   foldl (\<lambda>l (key, val). list_set l key val) ts es = ts"
  by (induction es) (auto simp: list_set_same)

lemma merged_idem:
  assumes "distinct (map fst es)"
  shows "merged es (merged es ts) = merged es ts"
proof -
  have "\<forall>(k, v) \<in> set es. filter (\<lambda>t. fst t = k) (merged es ts) = [(k, v)]"
    using merged_sets_each [OF assms] by blast
  from foldl_list_set_same [OF this] show ?thesis
    by (simp add: foldl_list_set [OF assms])
qed

lemma updated_in_place_entries:
  "e \<in> set (updated_in_place es ts) \<Longrightarrow> e \<in> set ts \<or> e \<in> set es"
  by (induction es ts rule: updated_in_place.induct)
     (auto split: option.splits dest: map_of_SomeD)

lemma merged_entries: "e \<in> set (merged es ts) \<Longrightarrow> e \<in> set ts \<or> e \<in> set es"
  by (auto simp: merged_def newly_added_def dest: updated_in_place_entries)

text \<open>
  C6. The merge is idempotent: for a valid URL and a parameter object (distinct keys, names
  and values text), on a platform that reads back the prefixes it serializes, the URL that
  \<^verbatim>\<open>appendQueryParams\<close> returns is a valid URL on which the same merge returns that same
  URL.
\<close>

theorem appendQueryParams_idempotent:
  assumes "reparses H" and "is_valid_URL H url" and "distinct (map fst params)"
    and "\<forall>(k, v) \<in> set params. is_text k \<and> is_text v"
  shows "\<exists>r. appendQueryParams H url params = Inr r \<and> appendQueryParams H r params = Inr r"
proof -
  from assms(2) obtain u where u: "URL_new H url = Inr u"
    by (cases "URL_new H url") (simp_all add: is_valid_URL_def)
  let ?es = "Object_entries params"
  let ?m = "merged ?es (searchParams u)"
  let ?u1 = "u\<lparr>searchParams := ?m, query := Some (urlencoded_serialize ?m)\<rparr>"
  have d: "distinct (map fst ?es)" using assms(3) by (rule distinct_Object_entries)
  show ?thesis
  proof (cases "params = []")
    case True
    with u have 1: "appendQueryParams H url params = Inr (URL_href u)"
      by (simp add: appendQueryParams_eq)
    from URL_new_reparse [OF assms(1) u] True
    have "appendQueryParams H (URL_href u) params = Inr (URL_href u)"
      by (simp add: appendQueryParams_eq)
    with 1 show ?thesis by simp
  next
    case False
    with u assms(3) have 1: "appendQueryParams H url params = Inr (URL_href ?u1)"
      by (simp add: appendQueryParams_eq)
    from u obtain q where "searchParams u = urlencoded_parse q"
      by (rule URL_new_Inr)
    then have "\<forall>(n, v) \<in> set (searchParams u). is_text n \<and> is_text v"
      by (auto dest: urlencoded_parse_is_text)
    with assms(4) have t: "\<forall>(n, v) \<in> set ?m. is_text n \<and> is_text v"
      by (auto dest!: merged_entries simp: set_Object_entries)
    from URL_new_reparse_merged [OF assms(1) u t]
    have 2: "URL_new H (URL_href ?u1) = Inr ?u1" .
    have "appendQueryParams H (URL_href ?u1) params = Inr (URL_href ?u1)"
      using appendQueryParams_eq [OF 2 assms(3)] False by (simp add: merged_idem [OF d])
    with 1 show ?thesis by simp
  qed
qed

text \<open>
  C7. Merging the empty object changes nothing but the spelling: for a valid URL, on a
  platform that reads back the prefixes it serializes, \<^verbatim>\<open>appendQueryParams(url, {})\<close>
  returns a text that the constructor parses to the very URL it parses \<open>url\<close> to, with the
  same query, fragment and parameter list. The text itself may differ:
  \<open>https://example.com\<close> with \<open>{a: "1", b: "2"}\<close> gives
  \<open>https://example.com/?a=1&b=2\<close>, the platform serializing the origin as
  \<open>https://example.com/\<close>.
\<close>

theorem appendQueryParams_empty_is_identity:
  "(reparses H \<and> is_valid_URL H url \<longrightarrow>
      (\<exists>r. appendQueryParams H url [] = Inr r \<and> URL_new H r = URL_new H url)) \<and>
   (H ''https://example.com'' = Some (sp, ''https://example.com/'') \<longrightarrow>
      appendQueryParams H ''https://example.com'' [(''a'', ''1''), (''b'', ''2'')]
        = Inr ''https://example.com/?a=1&b=2'')"
proof (intro conjI impI)
  assume a: "reparses H \<and> is_valid_URL H url"
  then obtain u where u: "URL_new H url = Inr u"
    by (cases "URL_new H url") (simp_all add: is_valid_URL_def)
  then have "appendQueryParams H url [] = Inr (URL_href u)"
    by (simp add: appendQueryParams_eq)
  moreover from a u have "URL_new H (URL_href u) = URL_new H url"
    by (simp add: URL_new_reparse)
  ultimately show "\<exists>r. appendQueryParams H url [] = Inr r \<and> URL_new H r = URL_new H url"
    by blast
next
  assume h: "H ''https://example.com'' = Some (sp, ''https://example.com/'')"
  have p: "url_parts ''https://example.com'' = (''https://example.com'', None, None)"
    by (simp add: url_parts_def strip_c0_or_space_def is_c0_or_space_def in_range_def
        is_tab_or_newline_def split_first_def)
  have e: "Object_entries [(''a'', ''1''), (''b'', ''2'')] = [(''a'', ''1''), (''b'', ''2'')]"
    by (simp add: Object_entries_def is_array_index_def in_range_def)
  show "appendQueryParams H ''https://example.com'' [(''a'', ''1''), (''b'', ''2'')]
        = Inr ''https://example.com/?a=1&b=2''"
    by (simp add: appendQueryParams_def URL_new_def p h e URLSearchParams_set_def URL_href_def
        urlencoded_parse_def urlencoded_encode_def urlencoded_byte_def is_ascii_alphanumeric_def
        in_range_def)
qed

lemma reparses_example_host: "reparses example_host"
  by (auto simp: reparses_def example_host_def clean_prefix_def is_c0_or_space_def in_range_def
      is_tab_or_newline_def split: if_splits)

lemma URL_new_example_a9b2:
  "URL_new example_host ''https://example.com?a=9&b=2'' =
     Inr \<lparr>special = True, prefix = ''https://example.com/'', query = Some ''a=9&b=2'',
          fragment = None, searchParams = [(''a'', ''9''), (''b'', ''2'')]\<rparr>"
proof -
  have p: "url_parts ''https://example.com?a=9&b=2'' = (''https://example.com'', Some ''a=9&b=2'', None)"
    by (simp add: url_parts_def strip_c0_or_space_def is_c0_or_space_def in_range_def
        is_tab_or_newline_def split_first_def)
  have q: "percent_encode special_query_set ''a=9&b=2'' = ''a=9&b=2''"
    by (simp add: percent_encode_def special_query_set_def query_set_def c0_control_set_def in_range_def)
  have l: "urlencoded_parse ''a=9&b=2'' = [(''a'', ''9''), (''b'', ''2'')]"
    by code_simp
  show ?thesis
    by (simp add: URL_new_def p example_host_example q l)
qed

lemma is_text_examples: "is_text ''a''" "is_text ''1''" "is_text ''c''" "is_text ''x y''"
  by (simp_all add: is_text_def in_range_def)

theorem appendQueryParams_idempotent_witness:
  "reparses example_host \<and> is_valid_URL example_host ''https://example.com?a=9&b=2'' \<and>
   distinct (map fst [(''a'', ''1''), (''c'', ''x y'')]) \<and>
   is_text ''a'' \<and> is_text ''1'' \<and> is_text ''c'' \<and> is_text ''x y'' \<and>
   appendQueryParams example_host ''https://example.com?a=9&b=2'' [(''a'', ''1''), (''c'', ''x y'')]
     = Inr ''https://example.com/?a=1&b=2&c=x+y'' \<and>
   appendQueryParams example_host ''https://example.com/?a=1&b=2&c=x+y'' [(''a'', ''1''), (''c'', ''x y'')]
     = Inr ''https://example.com/?a=1&b=2&c=x+y''"
proof -
  have v: "is_valid_URL example_host ''https://example.com?a=9&b=2''"
    by (simp add: is_valid_URL_def URL_new_example_a9b2)
  have d: "distinct (map fst [(''a'', ''1''), (''c'', ''x y'')])" by simp
  have t: "\<forall>(k, v) \<in> set [(''a'', ''1''), (''c'', ''x y'')]. is_text k \<and> is_text v"
    by (simp add: is_text_examples)
  have e: "Object_entries [(''a'', ''1''), (''c'', ''x y'')] = [(''a'', ''1''), (''c'', ''x y'')]"
    by (simp add: Object_entries_def is_array_index_def in_range_def)
  have m: "merged [(''a'', ''1''), (''c'', ''x y'')] [(''a'', ''9''), (''b'', ''2'')]
             = [(''a'', ''1''), (''b'', ''2''), (''c'', ''x y'')]"
    by (simp add: merged_def newly_added_def)
  have s: "urlencoded_serialize [(''a'', ''1''), (''b'', ''2''), (''c'', ''x y'')] = ''a=1&b=2&c=x+y''"
    by (simp add: urlencoded_encode_def urlencoded_byte_def is_ascii_alphanumeric_def in_range_def)
  have 1: "appendQueryParams example_host ''https://example.com?a=9&b=2'' [(''a'', ''1''), (''c'', ''x y'')]
     = Inr ''https://example.com/?a=1&b=2&c=x+y''"
    using appendQueryParams_eq [OF URL_new_example_a9b2 d]
    by (simp add: e m s URL_href_def del: urlencoded_serialize.simps)
  from appendQueryParams_idempotent [OF reparses_example_host v d t] 1
  have 2: "appendQueryParams example_host ''https://example.com/?a=1&b=2&c=x+y'' [(''a'', ''1''), (''c'', ''x y'')]
     = Inr ''https://example.com/?a=1&b=2&c=x+y''"
    by auto
  from reparses_example_host v d 1 2 show ?thesis by (simp add: is_text_examples)
qed

theorem appendQueryParams_empty_is_identity_witness:
  "reparses example_host \<and> is_valid_URL example_host ''https://example.com?a=9&b=2'' \<and>
   appendQueryParams example_host ''https://example.com?a=9&b=2'' [] = Inr ''https://example.com/?a=9&b=2'' \<and>
   URL_new example_host ''https://example.com/?a=9&b=2'' = URL_new example_host ''https://example.com?a=9&b=2'' \<and>
   example_host ''https://example.com'' = Some (True, ''https://example.com/'') \<and>
   appendQueryParams example_host ''https://example.com'' [(''a'', ''1''), (''b'', ''2'')]
     = Inr ''https://example.com/?a=1&b=2''"
proof -
  have v: "is_valid_URL example_host ''https://example.com?a=9&b=2''"
    by (simp add: is_valid_URL_def URL_new_example_a9b2)
  have 1: "appendQueryParams example_host ''https://example.com?a=9&b=2'' [] = Inr ''https://example.com/?a=9&b=2''"
    using appendQueryParams_eq [OF URL_new_example_a9b2, of "[]"] by (simp add: URL_href_def)
  from appendQueryParams_empty_is_identity [of example_host "''https://example.com?a=9&b=2''" True] reparses_example_host v 1
    example_host_example
  show ?thesis by auto
qed

end
